theory Spec2Isabelle
  imports Main "HOL-Library.Multiset"
begin

section \<open>Chess-Plus: pieces, the integer codec, move generation, legality and search\<close>

text \<open>
  A shallow embedding of the rules engine of the repository: \<^verbatim>\<open>Piece.py\<close> (pieces,
  the integer codec and the move generators), \<^verbatim>\<open>Board.py\<close> (the live board and the
  \<^verbatim>\<open>VirtualBoard\<close>) and \<^verbatim>\<open>NegaMax.py\<close> (evaluation, move ordering and the
  search). Python integers are \<open>int\<close> (\<open>div\<close> and \<open>mod\<close> round towards minus
  infinity, as \<^verbatim>\<open>//\<close> and \<^verbatim>\<open>%\<close> do), exceptions are values of
  \<open>error\<close>, and a board is the list of its eight columns, indexed \<^verbatim>\<open>board[x][y]\<close>.
\<close>

subsection \<open>Exceptions\<close>

text \<open>
  The Python exceptions the modelled code can raise. \<open>Diverges\<close> is not an exception:
  it marks the one loop of the source (\<^verbatim>\<open>infDist\<close>) that would never end on a
  move pattern without an \<^verbatim>\<open>"x"\<close> component.
\<close>

datatype error = IndexError | KeyError | TypeError | AttributeError | ValueError | Diverges

definition bindE :: "error + 'a \<Rightarrow> ('a \<Rightarrow> error + 'b) \<Rightarrow> error + 'b" where
  "bindE m f = (case m of Inl e \<Rightarrow> Inl e | Inr v \<Rightarrow> f v)"

text \<open>Python list indexing on a list of length \<open>n\<close>: a negative index counts from the end.\<close>

definition pyIndex :: "nat \<Rightarrow> int \<Rightarrow> error + nat" where
  "pyIndex n i =
     (if 0 \<le> i \<and> i < int n then Inr (nat i)
      else if - int n \<le> i \<and> i < 0 then Inr (nat (int n + i))
      else Inl IndexError)"

definition pyGet :: "'a list \<Rightarrow> int \<Rightarrow> error + 'a" where
  "pyGet xs i = bindE (pyIndex (length xs) i) (\<lambda>k. Inr (xs ! k))"

definition pySet :: "'a list \<Rightarrow> int \<Rightarrow> 'a \<Rightarrow> error + 'a list" where
  "pySet xs i v = bindE (pyIndex (length xs) i) (\<lambda>k. Inr (xs[k := v]))"

subsection \<open>Pieces (Piece.py)\<close>

text \<open>
  A piece object carries \<^verbatim>\<open>_value\<close>, \<^verbatim>\<open>_team\<close> and \<^verbatim>\<open>_square\<close>. The attributes
  \<^verbatim>\<open>_movedEver\<close>, \<^verbatim>\<open>_doubleMoved\<close> and \<^verbatim>\<open>_threatened\<close> exist only on some
  classes: \<open>None\<close> is the absent attribute. The team is \<open>False\<close> for white and
  \<open>True\<close> for black (Python compares it with 0 and 1).
\<close>

type_synonym square = "int \<times> int"

record piece =
  pvalue :: int
  team :: bool
  psquare :: square
  movedEver :: "bool option"
  doubleMoved :: "bool option"
  threatened :: "bool option"

definition King :: "square \<Rightarrow> bool \<Rightarrow> piece" where
  "King sq t = \<lparr>pvalue = 5, team = t, psquare = sq, movedEver = Some False,
                doubleMoved = None, threatened = Some False\<rparr>"

definition Queen :: "square \<Rightarrow> bool \<Rightarrow> piece" where
  "Queen sq t = \<lparr>pvalue = 4, team = t, psquare = sq, movedEver = None,
                 doubleMoved = None, threatened = None\<rparr>"

definition Bishop :: "square \<Rightarrow> bool \<Rightarrow> piece" where
  "Bishop sq t = \<lparr>pvalue = 3, team = t, psquare = sq, movedEver = None,
                  doubleMoved = None, threatened = None\<rparr>"

definition Knight :: "square \<Rightarrow> bool \<Rightarrow> piece" where
  "Knight sq t = \<lparr>pvalue = 2, team = t, psquare = sq, movedEver = None,
                  doubleMoved = None, threatened = None\<rparr>"

definition Rook :: "square \<Rightarrow> bool \<Rightarrow> piece" where
  "Rook sq t = \<lparr>pvalue = 1, team = t, psquare = sq, movedEver = Some False,
                doubleMoved = None, threatened = None\<rparr>"

definition Pawn :: "square \<Rightarrow> bool \<Rightarrow> piece" where
  "Pawn sq t = \<lparr>pvalue = 0, team = t, psquare = sq, movedEver = Some False,
                doubleMoved = Some False, threatened = None\<rparr>"

text \<open>
  \<^verbatim>\<open>movedEverTrue\<close> assigns the attribute, which creates it on a class that has none
  (the \<^verbatim>\<open>except NameError\<close> never fires). \<^verbatim>\<open>doubleMovedTrue\<close> is a method of
  \<^verbatim>\<open>Pawn\<close> only: on another class the call raises AttributeError.
\<close>

definition movedEverTrue :: "piece \<Rightarrow> piece" where
  "movedEverTrue p = p\<lparr>movedEver := Some True\<rparr>"

definition doubleMovedTrue :: "piece \<Rightarrow> error + piece" where
  "doubleMovedTrue p =
     (if pvalue p = 0 then Inr (p\<lparr>doubleMoved := Some True\<rparr>) else Inl AttributeError)"

text \<open>
  \<^verbatim>\<open>Piece.encodeInt\<close>: the reads of \<^verbatim>\<open>_movedEver\<close> and \<^verbatim>\<open>_doubleMoved\<close> sit in
  one \<^verbatim>\<open>try\<close>, the second nested in the first; an absent attribute ends the block
  with what was added so far.
\<close>

definition encodeInt :: "piece \<Rightarrow> int" where
  "encodeInt p =
     (let code = pvalue p * 10 + (if team p then 1 else 0) in
      case movedEver p of
        None \<Rightarrow> code
      | Some me \<Rightarrow>
          if me then
            (case doubleMoved p of
               None \<Rightarrow> code + 2
             | Some dm \<Rightarrow> if dm then code + 2 + 4 else code + 2)
          else code)"

text \<open>
  \<^verbatim>\<open>decodeInt\<close>: the class is picked from a six-element list by \<^verbatim>\<open>code // 10\<close>,
  the flags are read off \<^verbatim>\<open>code % 10\<close>.
\<close>

definition pieceClasses :: "(square \<Rightarrow> bool \<Rightarrow> piece) list" where
  "pieceClasses = [Pawn, Rook, Knight, Bishop, Queen, King]"

definition decodeInt :: "int \<Rightarrow> square \<Rightarrow> error + piece" where
  "decodeInt code sq =
     (let v = code div 10;
          bools = code mod 10;
          tm = bools mod 2;
          me = ((bools - tm) mod 4 \<noteq> 0);
          dm = bools div 4
      in bindE (pyGet pieceClasses v) (\<lambda>cls.
           let p0 = cls sq (tm \<noteq> 0);
               p1 = (if me then movedEverTrue p0 else p0)
           in if dm \<noteq> 0 then doubleMovedTrue p1 else Inr p1))"

text \<open>
  The piece states that occur in play. A pawn, rook or king is built with
  \<^verbatim>\<open>_movedEver = False\<close>; a knight, bishop or queen has no such attribute until it
  moves, when \<^verbatim>\<open>movedEverTrue\<close> creates it. Only a pawn has \<^verbatim>\<open>_doubleMoved\<close>, and
  it is set (in \<^verbatim>\<open>Board.__handleSpecialMoves\<close> and in \<^verbatim>\<open>decodeInt\<close>) only after
  \<^verbatim>\<open>movedEverTrue\<close> has run.
\<close>

definition validPiece :: "piece \<Rightarrow> bool" where
  "validPiece p =
     (if pvalue p = 0 then
        movedEver p \<noteq> None \<and> doubleMoved p \<noteq> None \<and>
        (\<not> (doubleMoved p = Some True \<and> movedEver p = Some False))
      else if pvalue p = 1 \<or> pvalue p = 5 then
        movedEver p \<noteq> None \<and> doubleMoved p = None
      else
        (pvalue p = 2 \<or> pvalue p = 3 \<or> pvalue p = 4) \<and>
        movedEver p \<noteq> Some False \<and> doubleMoved p = None)"


subsection \<open>Boards, squares and moves\<close>

text \<open>
  A square of the integer board holds \<^verbatim>\<open>None\<close> or a piece code. A move of the
  \<^verbatim>\<open>VirtualBoard\<close> is the tuple \<^verbatim>\<open>(source, destination)\<close> or
  \<^verbatim>\<open>(source, destination, tag)\<close> with a tag among \<^verbatim>\<open>"d"\<close>, \<^verbatim>\<open>"e"\<close>,
  \<^verbatim>\<open>"lc"\<close> and \<^verbatim>\<open>"rc"\<close>; \<^verbatim>\<open>len(move) == 3\<close> is \<open>tag \<noteq> None\<close>. The
  coordinates of a \<^verbatim>\<open>pg.Vector2\<close> are the integers the code converts them to.
\<close>

type_synonym 'p grid = "'p option list list"
type_synonym board = "int grid"
type_synonym move = "square \<times> square \<times> string option"

definition msrc :: "move \<Rightarrow> square" where "msrc m = fst m"
definition mdst :: "move \<Rightarrow> square" where "mdst m = fst (snd m)"
definition mtag :: "move \<Rightarrow> string option" where "mtag m = snd (snd m)"

definition emptyBoard :: "'p grid" where
  "emptyBoard = replicate 8 (replicate 8 None)"

definition wfBoard :: "'p grid \<Rightarrow> bool" where
  "wfBoard b = (length b = 8 \<and> list_all (\<lambda>col. length col = 8) b)"

text \<open>\<^verbatim>\<open>board[x][y]\<close> and \<^verbatim>\<open>board[x][y] = v\<close> with Python's index rules.\<close>

definition get2 :: "'p grid \<Rightarrow> int \<Rightarrow> int \<Rightarrow> error + 'p option" where
  "get2 b x y = bindE (pyGet b x) (\<lambda>col. pyGet col y)"

definition set2 :: "'p grid \<Rightarrow> int \<Rightarrow> int \<Rightarrow> 'p option \<Rightarrow> error + 'p grid" where
  "set2 b x y v =
     bindE (pyGet b x) (\<lambda>col. bindE (pySet col y v) (\<lambda>col'. pySet b x col'))"

text \<open>
  The same read where the code has already checked \<^verbatim>\<open>onBoard\<close>: on an 8 by 8
  board the indices are in range.
\<close>

definition cellAt :: "'p grid \<Rightarrow> int \<Rightarrow> int \<Rightarrow> 'p option" where
  "cellAt b x y = b ! nat x ! nat y"

definition onBoard :: "square \<Rightarrow> bool" where
  "onBoard sq = ((0 \<le> fst sq \<and> fst sq \<le> 7) \<and> (0 \<le> snd sq \<and> snd sq \<le> 7))"

definition teamInt :: "bool \<Rightarrow> int" where
  "teamInt t = (if t then 1 else 0)"

fun mapE :: "('a \<Rightarrow> error + 'b) \<Rightarrow> 'a list \<Rightarrow> error + 'b list" where
  "mapE f [] = Inr []"
| "mapE f (x # xs) =
     (case f x of Inl e \<Rightarrow> Inl e
      | Inr y \<Rightarrow> (case mapE f xs of Inl e \<Rightarrow> Inl e | Inr ys \<Rightarrow> Inr (y # ys)))"

fun filterE :: "('a \<Rightarrow> error + bool) \<Rightarrow> 'a list \<Rightarrow> error + 'a list" where
  "filterE f [] = Inr []"
| "filterE f (x # xs) =
     (case f x of Inl e \<Rightarrow> Inl e
      | Inr c \<Rightarrow> (case filterE f xs of Inl e \<Rightarrow> Inl e
                  | Inr ys \<Rightarrow> Inr (if c then x # ys else ys)))"

subsection \<open>Move patterns (the \<^verbatim>\<open>__pieceMoves\<close> table)\<close>

text \<open>
  A component of a pattern is the string \<^verbatim>\<open>"x"\<close>, the string \<^verbatim>\<open>"mx"\<close> or a
  number. The table is a dictionary keyed by the piece value 1 to 5.
\<close>

datatype comp = X | MX | N int

type_synonym pattern = "comp \<times> comp"

definition kingMoves :: "pattern list" where
  "kingMoves = [(N (-1), N (-1)), (N (-1), N 0), (N (-1), N 1), (N 0, N (-1)), (N 0, N 1),
                (N 1, N (-1)), (N 1, N 0), (N 1, N 1)]"

definition knightMoves :: "pattern list" where
  "knightMoves = [(N (-2), N (-1)), (N (-2), N 1), (N (-1), N (-2)), (N 1, N (-2)),
                  (N (-1), N 2), (N 1, N 2), (N 2, N (-1)), (N 2, N 1)]"

definition pieceMoves :: "int \<Rightarrow> pattern list option" where
  "pieceMoves k =
     (if k = 5 then Some kingMoves
      else if k = 4 then Some [(X, X), (MX, X), (N 0, X), (X, N 0)]
      else if k = 3 then Some [(X, X), (MX, X)]
      else if k = 2 then Some knightMoves
      else if k = 1 then Some [(X, N 0), (N 0, X)]
      else None)"

subsection \<open>Move generation on piece codes (Piece.py, the \<^verbatim>\<open>isinstance(agent, int)\<close> branch)\<close>

text \<open>
  \<^verbatim>\<open>infDist\<close>: the square reached when the counter \<^verbatim>\<open>inf\<close> is \<open>i\<close>. Adding a number to the
  string \<^verbatim>\<open>"mx"\<close> in the second component raises TypeError.
\<close>

definition rayX :: "square \<Rightarrow> pattern \<Rightarrow> int \<Rightarrow> int" where
  "rayX sq mv i =
     (case fst mv of X \<Rightarrow> fst sq + i | MX \<Rightarrow> fst sq - i | N a \<Rightarrow> fst sq + a)"

definition rayY :: "square \<Rightarrow> pattern \<Rightarrow> int \<Rightarrow> error + int" where
  "rayY sq mv i =
     (case snd mv of X \<Rightarrow> Inr (snd sq + i) | MX \<Rightarrow> Inl TypeError | N b \<Rightarrow> Inr (snd sq + b))"

definition moving :: "pattern \<Rightarrow> bool" where
  "moving mv = (fst mv = X \<or> fst mv = MX \<or> snd mv = X)"

definition changer :: "bool \<Rightarrow> int \<Rightarrow> int" where
  "changer up base = (if up then base + 1 else base - 1)"

text \<open>
  The \<^verbatim>\<open>while validMove\<close> loop of \<^verbatim>\<open>infDist\<close> for one of the two changers. It
  stops at the board's edge, on an own piece, and after adding an enemy piece's square.
  On an empty square it goes on; with a pattern in which nothing depends on the counter it
  would add the same square for ever.
\<close>

function rayLoop :: "bool \<Rightarrow> square \<Rightarrow> pattern \<Rightarrow> board \<Rightarrow> bool \<Rightarrow> int \<Rightarrow> error + square list" where
  "rayLoop tm sq mv b up i =
     (case rayY sq mv (changer up i) of
        Inl e \<Rightarrow> Inl e
      | Inr y \<Rightarrow>
          if onBoard (rayX sq mv (changer up i), y) then
            (case cellAt b (rayX sq mv (changer up i)) y of
               None \<Rightarrow>
                 if moving mv then
                   (case rayLoop tm sq mv b up (changer up i) of
                      Inl e \<Rightarrow> Inl e
                    | Inr r \<Rightarrow> Inr ((rayX sq mv (changer up i), y) # r))
                 else Inl Diverges
             | Some target \<Rightarrow>
                 if target mod 2 \<noteq> teamInt tm
                 then Inr [(rayX sq mv (changer up i), y)]
                 else Inr [])
          else Inr [])"
  by pat_completeness auto

lemma moving_bound:
  assumes "moving mv" "rayY sq mv i = Inr y" "onBoard (rayX sq mv i, y)"
  shows "\<bar>i\<bar> \<le> 7 + \<bar>fst sq\<bar> + \<bar>snd sq\<bar>"
  using assms
  by (cases "fst mv"; cases "snd mv")
     (auto simp: moving_def rayX_def rayY_def onBoard_def)

termination rayLoop
proof (relation "measure (\<lambda>(tm, sq, mv, b, up, i).
          nat (8 + \<bar>fst sq\<bar> + \<bar>snd sq\<bar> + (if up then - i else i)))", goal_cases)
  case 1
  then show ?case by simp
next
  case (2 tm sq mv b up i y)
  from moving_bound[OF 2(4) 2(1) 2(2)] show ?case
    by (auto simp: changer_def)
qed

declare rayLoop.simps [simp del]

text \<open>
  \<^verbatim>\<open>infDist\<close> runs the loop with \<^verbatim>\<open>base + 1\<close> and then with \<^verbatim>\<open>base - 1\<close>;
  \<^verbatim>\<open>addMove\<close> appends \<^verbatim>\<open>(square, dest)\<close>.
\<close>

definition infDist :: "bool \<Rightarrow> square \<Rightarrow> pattern \<Rightarrow> board \<Rightarrow> error + move list" where
  "infDist tm sq mv b =
     bindE (rayLoop tm sq mv b True 0) (\<lambda>fwd.
     bindE (rayLoop tm sq mv b False 0) (\<lambda>bwd.
       Inr (map (\<lambda>d. (sq, d, None)) (fwd @ bwd))))"

text \<open>One iteration of the \<^verbatim>\<open>for move in moveList\<close> loop of \<^verbatim>\<open>updateRegularMoves\<close>.\<close>

definition regularStep :: "bool \<Rightarrow> square \<Rightarrow> pattern \<Rightarrow> board \<Rightarrow> error + move list" where
  "regularStep tm sq mv b =
     (if fst mv = X \<or> snd mv = X then infDist tm sq mv b
      else
        (case mv of
           (N a, N c) \<Rightarrow>
             if onBoard (fst sq + a, snd sq + c) then
               (case cellAt b (fst sq + a) (snd sq + c) of
                  None \<Rightarrow> Inr [(sq, (fst sq + a, snd sq + c), None)]
                | Some target \<Rightarrow>
                    if target mod 2 \<noteq> teamInt tm
                    then Inr [(sq, (fst sq + a, snd sq + c), None)]
                    else Inr [])
             else Inr []
         | _ \<Rightarrow> Inl TypeError))"

fun updateRegularMoves :: "bool \<Rightarrow> square \<Rightarrow> pattern list \<Rightarrow> board \<Rightarrow> error + move list" where
  "updateRegularMoves tm sq [] b = Inr []"
| "updateRegularMoves tm sq (mv # moveList) b =
     bindE (regularStep tm sq mv b) (\<lambda>ms.
     bindE (updateRegularMoves tm sq moveList b) (\<lambda>rest. Inr (ms @ rest)))"

subsection \<open>Pawn moves (Piece.py, \<^verbatim>\<open>updatePawnMoves\<close>)\<close>

text \<open>
  The function picks five lambdas by \<^verbatim>\<open>isinstance(agent, int)\<close> and then runs one
  body for both representations. The body is modelled once, over the lambdas
  \<^verbatim>\<open>getTeam\<close>, \<^verbatim>\<open>getMovedEver\<close>, \<^verbatim>\<open>isPawn\<close> and \<^verbatim>\<open>doubleMoved\<close> (the
  parameters \<open>getTeamF\<close>, \<open>getMovedEverF\<close>, \<open>isPawnF\<close> and \<open>doubleMovedF\<close>); it yields the destinations
  with their tags, and \<^verbatim>\<open>addMove\<close> is applied by the two instances below. On the
  live board it also calls \<^verbatim>\<open>threatenedTrue()\<close> on an enemy king it can capture,
  which changes no returned move and is not modelled.
\<close>

type_synonym dest = "square \<times> string option"

definition pawnDir :: "bool \<Rightarrow> bool \<Rightarrow> int" where
  "pawnDir tm turn = (if tm = turn then - 1 else 1)"

definition freeCheck :: "square list \<Rightarrow> 'p grid \<Rightarrow> bool" where
  "freeCheck squares b = (filter (\<lambda>sq. cellAt b (fst sq) (snd sq) \<noteq> None) squares = [])"

definition pawnAdvance ::
  "('p \<Rightarrow> error + bool) \<Rightarrow> int \<Rightarrow> square \<Rightarrow> 'p \<Rightarrow> 'p grid \<Rightarrow> error + dest list" where
  "pawnAdvance getMovedEverF dir sq agent b =
     (if onBoard (fst sq, snd sq + dir) \<and> freeCheck [(fst sq, snd sq + dir)] b then
        bindE (getMovedEverF agent) (\<lambda>me.
          Inr (((fst sq, snd sq + dir), None) #
               (if \<not> me then
                  (if onBoard (fst sq, snd sq + 2 * dir) \<and>
                      freeCheck [(fst sq, snd sq + 2 * dir)] b
                   then [((fst sq, snd sq + 2 * dir), Some ''d'')] else [])
                else [])))
      else Inr [])"

definition pawnCapture ::
  "('p \<Rightarrow> bool) \<Rightarrow> ('p \<Rightarrow> bool) \<Rightarrow> ('p \<Rightarrow> error + bool) \<Rightarrow> bool \<Rightarrow> int \<Rightarrow> 'p grid \<Rightarrow> square
     \<Rightarrow> error + dest list" where
  "pawnCapture getTeamF isPawnF doubleMovedF tm dir b toAdd =
     (if 0 \<le> fst toAdd \<and> fst toAdd \<le> 7 \<and> 0 \<le> snd toAdd \<and> snd toAdd \<le> 7 then
        (case cellAt b (fst toAdd) (snd toAdd) of
           Some target \<Rightarrow> Inr (if getTeamF target \<noteq> tm then [(toAdd, None)] else [])
         | None \<Rightarrow>
             bindE (pyGet (b ! nat (fst toAdd)) (snd toAdd - dir)) (\<lambda>adjacent.
               case adjacent of
                 None \<Rightarrow> Inr []
               | Some target \<Rightarrow>
                   if isPawnF target then
                     bindE (doubleMovedF target) (\<lambda>dm.
                       Inr (if dm \<and> getTeamF target \<noteq> tm then [(toAdd, Some ''e'')] else []))
                   else Inr []))
      else Inr [])"

definition updatePawnMovesBody ::
  "('p \<Rightarrow> bool) \<Rightarrow> ('p \<Rightarrow> error + bool) \<Rightarrow> ('p \<Rightarrow> bool) \<Rightarrow> ('p \<Rightarrow> error + bool) \<Rightarrow>
     bool \<Rightarrow> bool \<Rightarrow> square \<Rightarrow> 'p \<Rightarrow> 'p grid \<Rightarrow> error + dest list" where
  "updatePawnMovesBody getTeamF getMovedEverF isPawnF doubleMovedF tm turn sq agent b =
     bindE (pawnAdvance getMovedEverF (pawnDir tm turn) sq agent b) (\<lambda>adv.
     bindE (pawnCapture getTeamF isPawnF doubleMovedF tm (pawnDir tm turn) b
              (fst sq - 1, snd sq + pawnDir tm turn)) (\<lambda>left.
     bindE (pawnCapture getTeamF isPawnF doubleMovedF tm (pawnDir tm turn) b
              (fst sq + 1, snd sq + pawnDir tm turn)) (\<lambda>right.
       Inr (adv @ left @ right))))"

text \<open>The lambdas of the integer branch, as written in the source.\<close>

definition intGetTeam :: "int \<Rightarrow> bool" where
  "intGetTeam target = (target mod 2 = 1)"

definition intGetMovedEver :: "int \<Rightarrow> error + bool" where
  "intGetMovedEver target = Inr ((target div 2) mod 2 \<noteq> 0)"

definition intIsPawn :: "int \<Rightarrow> bool" where
  "intIsPawn target = (target div 10 = 5)"

definition intDoubleMoved :: "int \<Rightarrow> error + bool" where
  "intDoubleMoved target = Inr ((target mod 10) div 4 \<noteq> 0)"

definition updatePawnMoves :: "bool \<Rightarrow> bool \<Rightarrow> square \<Rightarrow> int \<Rightarrow> board \<Rightarrow> error + move list" where
  "updatePawnMoves tm turn sq agent b =
     bindE (updatePawnMovesBody intGetTeam intGetMovedEver intIsPawn intDoubleMoved
              tm turn sq agent b)
       (\<lambda>ds. Inr (map (\<lambda>d. (sq, fst d, snd d)) ds))"

text \<open>
  The lambdas of the live branch. A live move is \<^verbatim>\<open>(dest, agent)\<close>, where \<^verbatim>\<open>dest\<close>
  is a vector or the tuple \<^verbatim>\<open>(x, y, tag)\<close>.
\<close>

definition liveGetMovedEver :: "piece \<Rightarrow> error + bool" where
  "liveGetMovedEver target =
     (case movedEver target of None \<Rightarrow> Inl AttributeError | Some m \<Rightarrow> Inr m)"

definition liveIsPawn :: "piece \<Rightarrow> bool" where
  "liveIsPawn target = (pvalue target = 0)"

definition liveDoubleMoved :: "piece \<Rightarrow> error + bool" where
  "liveDoubleMoved target =
     (case doubleMoved target of None \<Rightarrow> Inl AttributeError | Some d \<Rightarrow> Inr d)"

type_synonym liveMove = "dest \<times> piece"

definition updatePawnMovesLive ::
  "bool \<Rightarrow> bool \<Rightarrow> square \<Rightarrow> piece \<Rightarrow> piece grid \<Rightarrow> error + liveMove list" where
  "updatePawnMovesLive tm turn sq agent b =
     bindE (updatePawnMovesBody team liveGetMovedEver liveIsPawn liveDoubleMoved
              tm turn sq agent b)
       (\<lambda>ds. Inr (map (\<lambda>d. (d, agent)) ds))"

subsection \<open>The VirtualBoard (Board.py)\<close>

record vboard =
  vbBoard :: board
  vbTurn :: bool

definition VirtualBoard :: "bool \<Rightarrow> vboard" where
  "VirtualBoard turn = \<lparr>vbBoard = emptyBoard, vbTurn = turn\<rparr>"

definition placePiece :: "vboard \<Rightarrow> square \<Rightarrow> int \<Rightarrow> error + vboard" where
  "placePiece vb sq piece =
     bindE (set2 (vbBoard vb) (fst sq) (snd sq) (Some piece)) (\<lambda>b. Inr (vb\<lparr>vbBoard := b\<rparr>))"

text \<open>
  \<^verbatim>\<open>if not board\<close> takes the stored board when the argument is the default
  \<^verbatim>\<open>False\<close> (here \<open>None\<close>) or an empty list.
\<close>

definition boardArg :: "vboard \<Rightarrow> board option \<Rightarrow> board" where
  "boardArg vb arg = (case arg of None \<Rightarrow> vbBoard vb | Some b \<Rightarrow> if b = [] then vbBoard vb else b)"

definition turnArg :: "vboard \<Rightarrow> bool option \<Rightarrow> bool" where
  "turnArg vb arg = (case arg of None \<Rightarrow> vbTurn vb | Some t \<Rightarrow> t)"

text \<open>The squares in the order of the two nested \<^verbatim>\<open>enumerate\<close> loops.\<close>

definition cells :: "'p grid \<Rightarrow> (nat \<times> nat \<times> 'p option) list" where
  "cells b =
     concat (map (\<lambda>(x, column). map (\<lambda>(y, piece). (x, y, piece)) (enumerate 0 column))
               (enumerate 0 b))"

definition movesOfCell :: "bool \<Rightarrow> board \<Rightarrow> nat \<times> nat \<times> int option \<Rightarrow> error + move list" where
  "movesOfCell turn b c =
     (case snd (snd c) of
        None \<Rightarrow> Inr []
      | Some piece \<Rightarrow>
          if piece mod 2 = teamInt turn then
            (if piece \<ge> 10 then
               (case pieceMoves (piece div 10) of
                  None \<Rightarrow> Inl KeyError
                | Some moveList \<Rightarrow>
                    updateRegularMoves turn (int (fst c), int (fst (snd c))) moveList b)
             else updatePawnMoves turn turn (int (fst c), int (fst (snd c))) piece b)
          else Inr [])"

definition getAllMovesOn :: "bool \<Rightarrow> board \<Rightarrow> error + move list" where
  "getAllMovesOn turn b = bindE (mapE (movesOfCell turn b) (cells b)) (\<lambda>mss. Inr (concat mss))"

definition getAllMoves :: "vboard \<Rightarrow> bool option \<Rightarrow> board option \<Rightarrow> error + move list" where
  "getAllMoves vb turn board = getAllMovesOn (turnArg vb turn) (boardArg vb board)"

text \<open>
  The statements that \<^verbatim>\<open>fakeMove\<close> (on a deep copy) and \<^verbatim>\<open>makeMove\<close> (on the
  stored board) share, up to the rotation.
\<close>

definition bumpMovedEver :: "board \<Rightarrow> int \<Rightarrow> int \<Rightarrow> error + board" where
  "bumpMovedEver b x y =
     bindE (get2 b x y) (\<lambda>c.
       case c of
         None \<Rightarrow> Inl TypeError
       | Some p \<Rightarrow>
           if (p div 10 = 0 \<or> p div 10 = 1 \<or> p div 10 = 5) \<and> ((p mod 10) div 2) mod 2 = 0
           then set2 b x y (Some (p + 2))
           else Inr b)"

definition resetDoubleMoved :: "board \<Rightarrow> board" where
  "resetDoubleMoved b =
     map (map (\<lambda>c. case c of None \<Rightarrow> None
                    | Some p \<Rightarrow> if p div 10 = 0 then Some (p mod 4) else Some p)) b"

definition addFour :: "board \<Rightarrow> int \<Rightarrow> int \<Rightarrow> error + board" where
  "addFour b x y =
     bindE (get2 b x y) (\<lambda>c.
       case c of None \<Rightarrow> Inl TypeError | Some p \<Rightarrow> set2 b x y (Some (p + 4)))"

definition castleRook :: "board \<Rightarrow> int \<Rightarrow> int \<Rightarrow> error + board" where
  "castleRook b target corner =
     bindE (get2 b corner 7) (\<lambda>rook.
     bindE (set2 b target 7 rook) (\<lambda>b1. set2 b1 corner 7 None))"

definition specialStmts :: "board \<Rightarrow> move \<Rightarrow> error + board" where
  "specialStmts b m =
     (case mtag m of
        None \<Rightarrow> Inr b
      | Some tag \<Rightarrow>
          bindE (if tag = ''lc'' then castleRook b (fst (mdst m) + 1) 0 else Inr b) (\<lambda>b1.
          bindE (if tag = ''rc'' then castleRook b1 (fst (mdst m) - 1) 7 else Inr b1) (\<lambda>b2.
            if tag = ''d'' then addFour b2 (fst (mdst m)) (snd (mdst m))
            else set2 b2 (fst (mdst m)) (snd (msrc m)) None)))"

definition promoteColumn :: "int \<Rightarrow> int option list \<Rightarrow> error + int option list" where
  "promoteColumn promote column =
     bindE (pyGet column 0) (\<lambda>c.
       case c of
         None \<Rightarrow> Inr column
       | Some p \<Rightarrow> if p < 10 then pySet column 0 (Some (promote * 10 + p)) else Inr column)"

definition rotate :: "'p grid \<Rightarrow> 'p grid" where
  "rotate b = rev (map rev b)"

definition moveStmts :: "board \<Rightarrow> move \<Rightarrow> int \<Rightarrow> error + board" where
  "moveStmts b m promote =
     bindE (get2 b (fst (msrc m)) (snd (msrc m))) (\<lambda>moved.
     bindE (set2 b (fst (mdst m)) (snd (mdst m)) moved) (\<lambda>b1.
     bindE (set2 b1 (fst (msrc m)) (snd (msrc m)) None) (\<lambda>b2.
     bindE (bumpMovedEver b2 (fst (mdst m)) (snd (mdst m))) (\<lambda>b3.
     bindE (specialStmts (resetDoubleMoved b3) m) (\<lambda>b4.
     bindE (mapE (promoteColumn promote) b4) (\<lambda>b5.
       Inr (rotate b5)))))))"

definition fakeMove :: "vboard \<Rightarrow> move \<Rightarrow> int \<Rightarrow> error + board" where
  "fakeMove vb m promote = moveStmts (vbBoard vb) m promote"

text \<open>
  \<^verbatim>\<open>makeMove\<close> stores the new board and swaps the turn. When a statement raises, the
  source leaves the stored board partly updated; the model then has the exception only.
\<close>

definition makeMove :: "vboard \<Rightarrow> move \<Rightarrow> int \<Rightarrow> error + vboard" where
  "makeMove vb m promote =
     bindE (moveStmts (vbBoard vb) m promote) (\<lambda>b.
       Inr (vb\<lparr>vbBoard := b, vbTurn := \<not> vbTurn vb\<rparr>))"

text \<open>
  \<^verbatim>\<open>getCheck\<close>: is some destination of the simulated turn's moves a king of the
  other team?
\<close>

definition hitsKing :: "bool \<Rightarrow> board \<Rightarrow> move \<Rightarrow> error + bool" where
  "hitsKing turn b m =
     bindE (get2 b (fst (mdst m)) (snd (mdst m))) (\<lambda>c.
       Inr (case c of None \<Rightarrow> False | Some p \<Rightarrow> p mod 2 \<noteq> teamInt turn \<and> p div 10 = 5))"

definition getCheck :: "vboard \<Rightarrow> board option \<Rightarrow> bool \<Rightarrow> error + bool" where
  "getCheck vb board turnOffset =
     bindE (getAllMovesOn (vbTurn vb \<noteq> turnOffset) (boardArg vb board)) (\<lambda>ms.
     bindE (filterE (hitsKing (vbTurn vb \<noteq> turnOffset) (boardArg vb board)) ms) (\<lambda>hits.
       Inr (hits \<noteq> [])))"

text \<open>\<^verbatim>\<open>list.remove\<close>: the first equal element goes; ValueError when there is none.\<close>

definition pyRemove :: "'a \<Rightarrow> 'a list \<Rightarrow> error + 'a list" where
  "pyRemove x xs = (if x \<in> set xs then Inr (remove1 x xs) else Inl ValueError)"

fun removeAll :: "'a list \<Rightarrow> 'a list \<Rightarrow> error + 'a list" where
  "removeAll [] xs = Inr xs"
| "removeAll (d # toDel) xs = bindE (pyRemove d xs) (removeAll toDel)"

definition leavesInCheck :: "vboard \<Rightarrow> move \<Rightarrow> error + bool" where
  "leavesInCheck vb m = bindE (fakeMove vb m 4) (\<lambda>b'. getCheck vb (Some b') True)"

definition getAllLegalMoves :: "vboard \<Rightarrow> bool option \<Rightarrow> board option \<Rightarrow> error + move list" where
  "getAllLegalMoves vb turn board =
     bindE (getAllMovesOn (turnArg vb turn) (boardArg vb board)) (\<lambda>allMoves.
     bindE (filterE (leavesInCheck vb) allMoves) (\<lambda>toDel.
       removeAll toDel allMoves))"

subsection \<open>The initial position (Board.py, \<^verbatim>\<open>Board.__init__\<close> and \<^verbatim>\<open>createVBoard\<close>)\<close>

text \<open>
  The constructor builds the back ranks (white, team 0, on row 7; black on row 0) and
  then the pawns (white on row 6, black on row 1). \<^verbatim>\<open>createVBoard\<close> places the
  code of every piece of the sprite group on an empty virtual board.
\<close>

definition backRank :: "(square \<Rightarrow> bool \<Rightarrow> piece) list" where
  "backRank = [Rook, Knight, Bishop, Queen, King, Bishop, Knight, Rook]"

definition initialPieces :: "piece list" where
  "initialPieces =
     concat (map (\<lambda>(tm, ySquare).
                map (\<lambda>(xSquare, cls). cls (int xSquare, ySquare) tm) (enumerate 0 backRank))
              [(False, 7), (True, 0)]) @
     concat (map (\<lambda>(tm, ySquare). map (\<lambda>xSquare. Pawn (int xSquare, ySquare) tm) [0..<8])
              [(False, 6), (True, 1)])"

fun placeAll :: "vboard \<Rightarrow> piece list \<Rightarrow> error + vboard" where
  "placeAll vb [] = Inr vb"
| "placeAll vb (p # ps) =
     bindE (placePiece vb (psquare p) (encodeInt p)) (\<lambda>vb'. placeAll vb' ps)"

definition createVBoard :: "piece list \<Rightarrow> bool \<Rightarrow> error + vboard" where
  "createVBoard pieces turn = placeAll (VirtualBoard turn) pieces"

subsection \<open>Static evaluation (NegaMax.py, \<^verbatim>\<open>__boardEval\<close>)\<close>

definition piecePoints :: "int \<Rightarrow> int option" where
  "piecePoints k =
     (if k = 4 then Some 900 else if k = 3 then Some 300 else if k = 2 then Some 320
      else if k = 1 then Some 500 else if k = 0 then Some 100 else None)"

definition possibilityPoints :: int where "possibilityPoints = 10"

definition perilPoints :: int where "perilPoints = - 300"

definition plusPoints :: "string \<Rightarrow> int option" where
  "plusPoints k =
     (if k = ''b'' then Some 50 else if k = ''r'' then Some (- 30)
      else if k = ''d'' then Some (- 50) else if k = ''i'' then Some (- 70)
      else if k = ''c'' then Some 30 else None)"

definition posKing :: "int list list" where
  "posKing =
    [[- 65, 23, 16, - 15, - 56, - 34, 2, 13],
     [29, - 1, - 20, - 7, - 8, - 4, - 38, - 29],
     [- 9, 24, 2, - 16, - 20, 6, 22, - 22],
     [- 17, - 20, - 12, - 27, - 30, - 25, - 14, - 36],
     [- 49, - 1, - 27, - 39, - 46, - 44, - 33, - 51],
     [- 14, - 14, - 22, - 46, - 44, - 30, - 15, - 27],
     [1, 7, - 8, - 64, - 43, - 16, 9, 8],
     [- 15, 36, 12, - 54, 8, - 28, 24, 14]]"

definition posQueen :: "int list list" where
  "posQueen =
    [[- 28, 0, 29, 12, 59, 44, 43, 45],
     [- 24, - 39, - 5, 1, - 16, 57, 28, 54],
     [- 13, - 17, 7, 8, 29, 56, 47, 57],
     [- 27, - 27, - 16, - 16, - 1, 17, - 2, 1],
     [- 9, - 26, - 9, - 10, - 2, - 4, 3, - 3],
     [- 14, 2, - 11, - 2, - 5, 2, 14, 5],
     [- 35, - 8, 11, 2, 8, 15, - 3, 1],
     [- 1, - 18, - 9, 10, - 15, - 25, - 31, - 50]]"

definition posBishop :: "int list list" where
  "posBishop =
    [[- 29, 4, - 82, - 37, - 25, - 42, 7, - 8],
     [- 26, 16, - 18, - 13, 30, 59, 18, - 47],
     [- 16, 37, 43, 40, 35, 50, 37, - 2],
     [- 4, 5, 19, 50, 37, 37, 7, - 2],
     [- 6, 13, 13, 26, 34, 12, 10, 4],
     [0, 15, 15, 15, 14, 27, 18, 10],
     [4, 15, 16, 0, 7, 21, 33, 1],
     [- 33, - 3, - 14, - 21, - 13, - 12, - 39, - 21]]"

definition posKnight :: "int list list" where
  "posKnight =
    [[- 167, - 89, - 34, - 49, 61, - 97, - 15, - 107],
     [- 73, - 41, 72, 36, 23, 62, 7, - 17],
     [- 47, 60, 37, 65, 84, 129, 73, 44],
     [- 9, 17, 19, 53, 37, 69, 18, 22],
     [- 13, 4, 16, 13, 28, 19, 21, - 8],
     [- 23, - 9, 12, 10, 19, 17, 25, - 16],
     [- 29, - 53, - 12, - 3, - 1, 18, - 14, - 19],
     [- 105, - 21, - 58, - 33, - 17, - 28, - 19, - 23]]"

definition posRook :: "int list list" where
  "posRook =
    [[32, 42, 32, 51, 63, 9, 31, 43],
     [27, 32, 58, 62, 80, 67, 26, 44],
     [- 5, 19, 26, 36, 17, 45, 61, 16],
     [- 24, - 11, 7, 26, 24, 35, - 8, - 20],
     [- 36, - 26, - 12, - 1, 9, - 7, 6, - 23],
     [- 45, - 25, - 16, - 17, 3, 0, - 5, - 33],
     [- 44, - 16, - 20, - 9, - 1, 11, - 6, - 71],
     [- 19, - 13, 1, 17, 16, 7, - 37, - 26]]"

definition posPawn :: "int list list" where
  "posPawn =
    [[0, 0, 0, 0, 0, 0, 0, 0],
     [98, 134, 61, 95, 68, 126, 34, - 11],
     [- 6, 7, 26, 31, 65, 56, 25, - 20],
     [- 14, 13, 6, 21, 23, 12, 17, - 23],
     [- 27, - 2, - 5, 12, 17, 6, 10, - 25],
     [- 26, - 4, - 4, - 10, 3, 3, 33, - 12],
     [- 35, - 1, - 20, - 23, - 15, 24, 38, - 22],
     [0, 0, 0, 0, 0, 0, 0, 0]]"

definition posPoints :: "int \<Rightarrow> int list list option" where
  "posPoints k =
     (if k = 5 then Some posKing else if k = 4 then Some posQueen
      else if k = 3 then Some posBishop else if k = 2 then Some posKnight
      else if k = 1 then Some posRook else if k = 0 then Some posPawn else None)"

definition lookupE :: "'v option \<Rightarrow> error + 'v" where
  "lookupE r = (case r of None \<Rightarrow> Inl KeyError | Some v \<Rightarrow> Inr v)"

fun foldE :: "('s \<Rightarrow> 'a \<Rightarrow> error + 's) \<Rightarrow> 's \<Rightarrow> 'a list \<Rightarrow> error + 's" where
  "foldE f s [] = Inr s"
| "foldE f s (x # xs) = bindE (f s x) (\<lambda>s'. foldE f s' xs)"

text \<open>The body of the two nested loops of the fast mode, for one square.\<close>

definition fastStep :: "bool \<Rightarrow> int \<Rightarrow> int option \<Rightarrow> error + int" where
  "fastStep turn ev c =
     (case c of
        None \<Rightarrow> Inr ev
      | Some piece \<Rightarrow>
          if piece mod 2 = teamInt turn then
            (if piece < 50 then bindE (lookupE (piecePoints (piece div 10))) (\<lambda>pts. Inr (ev + pts))
             else Inr (ev + 10000))
          else
            (if piece < 50 then bindE (lookupE (piecePoints (piece div 10))) (\<lambda>pts. Inr (ev - pts))
             else Inr ev))"

text \<open>
  The closing term of both modes:
  \<^verbatim>\<open>possibilityPoints * len(getAllLegalMoves()) + perilPoints * (getCheck() - getCheck(turnOffset=True))\<close>.
\<close>

definition extras :: "vboard \<Rightarrow> error + int" where
  "extras vb =
     bindE (getAllLegalMoves vb None None) (\<lambda>legal.
     bindE (getCheck vb None False) (\<lambda>c0.
     bindE (getCheck vb None True) (\<lambda>c1.
       Inr (possibilityPoints * int (length legal) +
            perilPoints * (of_bool c0 - of_bool c1)))))"

text \<open>The state of the full mode's loops: the score, the two counters and the pawn list.\<close>

record fullState =
  fsEval :: int
  fsBishops :: int
  fsRooks :: int
  fsPawnRows :: "nat list"

definition fullStep :: "bool \<Rightarrow> fullState \<Rightarrow> nat \<times> nat \<times> int option \<Rightarrow> error + fullState" where
  "fullStep turn st c =
     (case snd (snd c) of
        None \<Rightarrow> Inr st
      | Some piece \<Rightarrow>
          if piece mod 2 = teamInt turn then
            bindE (lookupE (posPoints (piece div 10))) (\<lambda>tbl.
            bindE (pyGet tbl (int (fst (snd c)))) (\<lambda>row.
            bindE (pyGet row (int (fst c))) (\<lambda>pos.
              if piece < 50 then
                bindE (lookupE (piecePoints (piece div 10))) (\<lambda>pts.
                  Inr (if piece div 10 = 3
                       then st\<lparr>fsEval := fsEval st + pos + pts, fsBishops := fsBishops st + 1\<rparr>
                       else if piece < 20 then
                         (if piece < 10
                          then st\<lparr>fsEval := fsEval st + pos + pts,
                                  fsPawnRows := fsPawnRows st @ [fst c]\<rparr>
                          else st\<lparr>fsEval := fsEval st + pos + pts, fsRooks := fsRooks st + 1\<rparr>)
                       else st\<lparr>fsEval := fsEval st + pos + pts\<rparr>))
              else Inr (st\<lparr>fsEval := fsEval st + pos + 10000\<rparr>))))
          else
            (if piece < 50
             then bindE (lookupE (piecePoints (piece div 10))) (\<lambda>pts.
                    Inr (st\<lparr>fsEval := fsEval st - pts\<rparr>))
             else Inr st))"

text \<open>The loop over \<^verbatim>\<open>pawnRows\<close>, with its state \<^verbatim>\<open>(eval, prev, solo)\<close>.\<close>

definition pawnRowStep :: "int \<times> int \<times> int \<Rightarrow> nat \<Rightarrow> int \<times> int \<times> int" where
  "pawnRowStep st row =
     (let ev = fst st; prev = fst (snd st); solo = snd (snd st);
          ev1 = (if int row \<in> {2, 3, 4, 5} then ev + 30 else ev)
      in if prev = int row then (ev1 - 50, int row, solo)
         else if prev < int row - 1
         then ((if prev = solo then ev1 - 70 else ev1), int row, int row)
         else (ev1, int row, - 1))"

definition boardEval :: "vboard \<Rightarrow> bool \<Rightarrow> error + int" where
  "boardEval vb speed =
     (if speed then
        bindE (foldE (fastStep (vbTurn vb)) (- 10000) (concat (vbBoard vb))) (\<lambda>ev.
        bindE (extras vb) (\<lambda>ex. Inr (ev + ex + 100)))
      else
        bindE (foldE (fullStep (vbTurn vb))
                 \<lparr>fsEval = - 10000, fsBishops = 0, fsRooks = 0, fsPawnRows = []\<rparr>
                 (cells (vbBoard vb))) (\<lambda>st.
          let ev1 = (if fsBishops st = 2 then fsEval st + 50 else fsEval st);
              ev2 = (if fsRooks st = 2 then ev1 - 30 else ev1);
              ev3 = fst (foldl pawnRowStep (ev2, - 1, - 1) (fsPawnRows st))
          in bindE (extras vb) (\<lambda>ex. Inr (ev3 + ex))))"

subsection \<open>Move ordering (NegaMax.py, \<^verbatim>\<open>__orderMoves\<close>)\<close>

text \<open>
  The key of the \<^verbatim>\<open>taken\<close> dictionary a move is filed under: the value of the piece
  on its destination, 0 for an en passant move onto an empty square, and the key
  \<^verbatim>\<open>None\<close> for any other move onto an empty square. A piece value outside 0 to 5 is
  no key of the dictionary.
\<close>

definition takenKey :: "board \<Rightarrow> move \<Rightarrow> error + int option" where
  "takenKey b m =
     bindE (get2 b (fst (mdst m)) (snd (mdst m))) (\<lambda>c.
       case c of
         None \<Rightarrow> Inr (if mtag m = Some ''e'' then Some 0 else None)
       | Some p \<Rightarrow> if 0 \<le> p div 10 \<and> p div 10 \<le> 5 then Inr (Some (p div 10))
                   else Inl KeyError)"

text \<open>
  The sort key \<^verbatim>\<open>abs((move[0].x + move[1].x) / 2 - 3.5)\<close>, doubled so that it is an
  integer: the order of the keys is the same.
\<close>

definition prox :: "move \<Rightarrow> int" where
  "prox m = \<bar>fst (msrc m) + fst (mdst m) - 7\<bar>"

definition takenKeys :: "int option list" where
  "takenKeys = [Some 5, Some 4, Some 3, Some 2, Some 1, Some 0, None]"

definition orderGroup :: "move list \<Rightarrow> move list" where
  "orderGroup grp =
     sort_key prox (filter (\<lambda>m. mtag m \<noteq> None) grp) @
     sort_key prox (filter (\<lambda>m. mtag m = None) grp)"

definition orderMoves :: "board \<Rightarrow> move list \<Rightarrow> error + move list" where
  "orderMoves b moves =
     bindE (mapE (takenKey b) moves) (\<lambda>keys.
       Inr (concat (map (\<lambda>k. orderGroup (map snd (filter (\<lambda>km. fst km = k) (zip keys moves))))
                      takenKeys)))"

subsection \<open>Example positions\<close>

text \<open>
  White to move, king and both rooks unmoved on their squares, the squares between them
  empty, the black king on its square: both castle moves are in the live king's move list.
\<close>

definition castleExample :: vboard where
  "castleExample =
     \<lparr>vbBoard =
        [[None, None, None, None, None, None, None, Some 10],
         [None, None, None, None, None, None, None, None],
         [None, None, None, None, None, None, None, None],
         [None, None, None, None, None, None, None, None],
         [Some 51, None, None, None, None, None, None, Some 50],
         [None, None, None, None, None, None, None, None],
         [None, None, None, None, None, None, None, None],
         [None, None, None, None, None, None, None, Some 10]],
      vbTurn = False\<rparr>"

text \<open>
  Black to move, the board turned to black's side. White has just pushed a pawn two
  squares, to (5, 3), beside the black pawn on (4, 3); the square (5, 2) behind it is
  empty.
\<close>

definition enPassantPieces :: "piece list" where
  "enPassantPieces =
     [(Pawn (4, 3) True)\<lparr>movedEver := Some True\<rparr>,
      (Pawn (5, 3) False)\<lparr>movedEver := Some True, doubleMoved := Some True\<rparr>,
      King (3, 7) True, King (3, 0) False]"

text \<open>The loop of \<^verbatim>\<open>Board.__init__\<close> that files every piece under its square.\<close>

definition boardOfPieces :: "piece list \<Rightarrow> error + piece grid" where
  "boardOfPieces pieces =
     foldE (\<lambda>b p. set2 b (fst (psquare p)) (snd (psquare p)) (Some p)) emptyBoard pieces"

text \<open>
  White to move and in check: the black rook on (4, 0) attacks the white king on (4, 7)
  down the empty file; the black king stands on (0, 0).
\<close>

definition checkExample :: vboard where
  "checkExample =
     \<lparr>vbBoard =
        [[Some 53, None, None, None, None, None, None, None],
         [None, None, None, None, None, None, None, None],
         [None, None, None, None, None, None, None, None],
         [None, None, None, None, None, None, None, None],
         [Some 13, None, None, None, None, None, None, Some 52],
         [None, None, None, None, None, None, None, None],
         [None, None, None, None, None, None, None, None],
         [None, None, None, None, None, None, None, None]],
      vbTurn = False\<rparr>"

subsection \<open>Well-formed positions\<close>

text \<open>
  The boards the \<^verbatim>\<open>VirtualBoard\<close> holds: eight columns of eight squares (the
  constructor builds them so and no method changes the shape), every piece code of the
  form \<^verbatim>\<open>value * 10 + flags\<close> with a value from 0 to 5 and flags from 0 to 7.
\<close>

definition validCode :: "int \<Rightarrow> bool" where
  "validCode p = (0 \<le> p \<and> p < 60 \<and> p mod 10 < 8)"

definition validCell :: "int option \<Rightarrow> bool" where
  "validCell c = (case c of None \<Rightarrow> True | Some p \<Rightarrow> validCode p)"

definition validBoard :: "board \<Rightarrow> bool" where
  "validBoard b = (wfBoard b \<and> list_all (list_all validCell) b)"

text \<open>The patterns that occur in the \<^verbatim>\<open>__pieceMoves\<close> table.\<close>

definition tablePattern :: "pattern \<Rightarrow> bool" where
  "tablePattern mv = (case mv of
      (N a, N c) \<Rightarrow> (a, c) \<noteq> (0, 0)
    | (X, X) \<Rightarrow> True | (MX, X) \<Rightarrow> True | (N a, X) \<Rightarrow> True | (X, N c) \<Rightarrow> True
    | _ \<Rightarrow> False)"

text \<open>
  What the generators return on such a board: a move from an occupied square to another
  square of the board, untagged or tagged \<^verbatim>\<open>"e"\<close>, or tagged \<^verbatim>\<open>"d"\<close> when a pawn
  moves. (No castle is generated on the virtual board: \<^verbatim>\<open>updateCastle\<close> is called
  for live kings only.)
\<close>

definition goodMove :: "board \<Rightarrow> move \<Rightarrow> bool" where
  "goodMove b m =
     (onBoard (msrc m) \<and> onBoard (mdst m) \<and> mdst m \<noteq> msrc m \<and>
      (case cellAt b (fst (msrc m)) (snd (msrc m)) of
         None \<Rightarrow> False
       | Some p \<Rightarrow> mtag m = None \<or> mtag m = Some ''e'' \<or> (mtag m = Some ''d'' \<and> p < 10)))"

text \<open>The test of \<^verbatim>\<open>getCheck\<close>'s list comprehension on one move.\<close>

definition attacksKing :: "bool \<Rightarrow> board \<Rightarrow> move \<Rightarrow> bool" where
  "attacksKing turn b m =
     (case cellAt b (fst (mdst m)) (snd (mdst m)) of
        None \<Rightarrow> False | Some p \<Rightarrow> p mod 2 \<noteq> teamInt turn \<and> p div 10 = 5)"

subsection \<open>Legality as the specification words it\<close>

text \<open>
  Following the specification's sentence, not the code: a move leaves the mover's king
  attacked when, in the position that applying it to a copy yields, the destination of
  some pseudo-legal move of the opponent is a square on which a king of the mover stands.
\<close>

definition kingSquares :: "bool \<Rightarrow> board \<Rightarrow> square list" where
  "kingSquares mover b =
     map (\<lambda>c. (int (fst c), int (fst (snd c))))
       (filter (\<lambda>c. case snd (snd c) of None \<Rightarrow> False
                     | Some p \<Rightarrow> p div 10 = 5 \<and> p mod 2 = teamInt mover) (cells b))"

definition leavesKingAttacked :: "vboard \<Rightarrow> move \<Rightarrow> bool" where
  "leavesKingAttacked vb m =
     (case fakeMove vb m 4 of
        Inl e \<Rightarrow> False
      | Inr b' \<Rightarrow>
          (case getAllMovesOn (\<not> vbTurn vb) b' of
             Inl e \<Rightarrow> False
           | Inr replies \<Rightarrow> \<exists>r \<in> set replies. mdst r \<in> set (kingSquares (vbTurn vb) b')))"

subsection \<open>A swap of sides, and the material of a position\<close>

text \<open>
  The same state seen by the other side: the board rotated (as \<^verbatim>\<open>makeMove\<close> rotates
  it) and the turn flipped.
\<close>

definition swapSides :: "vboard \<Rightarrow> vboard" where
  "swapSides vb = vb\<lparr>vbBoard := rotate (vbBoard vb), vbTurn := \<not> vbTurn vb\<rparr>"

text \<open>
  Following the specification's words for the fast mode: the sum of signed material
  values, own pieces positive and enemy pieces negative, the king excluded; and the
  number of kings of a side (the evaluation adds 10000 for each of the mover's own).
\<close>

definition signedPoints :: "bool \<Rightarrow> int option \<Rightarrow> int" where
  "signedPoints side c =
     (case c of
        None \<Rightarrow> 0
      | Some p \<Rightarrow>
          if p < 50 then
            (case piecePoints (p div 10) of
               None \<Rightarrow> 0
             | Some pts \<Rightarrow> if p mod 2 = teamInt side then pts else - pts)
          else 0)"

definition material :: "bool \<Rightarrow> board \<Rightarrow> int" where
  "material side b = sum_list (map (signedPoints side) (concat b))"

definition ownKing :: "bool \<Rightarrow> int option \<Rightarrow> bool" where
  "ownKing side c = (case c of None \<Rightarrow> False | Some p \<Rightarrow> 50 \<le> p \<and> p mod 2 = teamInt side)"

definition ownKings :: "bool \<Rightarrow> board \<Rightarrow> int" where
  "ownKings side b = int (length (filter (ownKing side) (concat b)))"

subsection \<open>The order of the ordered moves\<close>

text \<open>
  White to move: the queen on (3, 4) can take the black rook on (3, 1) and the black
  bishop on (6, 4).
\<close>

definition captureExample :: vboard where
  "captureExample =
     \<lparr>vbBoard =
        [[None, None, None, None, None, None, None, None],
         [None, None, None, None, None, None, None, None],
         [None, None, None, None, None, None, None, None],
         [Some 53, Some 13, None, None, Some 42, None, None, None],
         [None, None, None, None, None, None, None, Some 52],
         [None, None, None, None, None, None, None, None],
         [None, None, None, None, Some 31, None, None, None],
         [None, None, None, None, None, None, None, None]],
      vbTurn = False\<rparr>"

text \<open>
  The key a move is filed under, and its number: the value (0 to 5) of the piece the
  move takes, 0 for an en passant move, \<open>- 1\<close> for a move that takes nothing.
\<close>

definition keyOf :: "board \<Rightarrow> move \<Rightarrow> int option" where
  "keyOf b m = (case takenKey b m of Inr k \<Rightarrow> k | Inl e \<Rightarrow> None)"

definition keyValue :: "int option \<Rightarrow> int" where
  "keyValue k = (case k of Some v \<Rightarrow> v | None \<Rightarrow> - 1)"

definition captureValue :: "board \<Rightarrow> move \<Rightarrow> int" where
  "captureValue b m = (case takenKey b m of Inr (Some v) \<Rightarrow> v | Inr None \<Rightarrow> - 1 | Inl e \<Rightarrow> - 1)"

text \<open>
  The order \<^verbatim>\<open>__orderMoves\<close> establishes between an earlier and a later move of
  its result: a higher captured value first; among equals the tagged moves before the
  plain ones; among those the smaller \<open>prox\<close> first.
\<close>

definition orderedBefore :: "board \<Rightarrow> move \<Rightarrow> move \<Rightarrow> bool" where
  "orderedBefore b m1 m2 =
     (captureValue b m1 > captureValue b m2 \<or>
      (captureValue b m1 = captureValue b m2 \<and>
       ((mtag m1 \<noteq> None \<and> mtag m2 = None) \<or>
        ((mtag m1 = None) = (mtag m2 = None) \<and> prox m1 \<le> prox m2))))"

subsection \<open>The VirtualBoard as objects on a heap (Board.py)\<close>

text \<open>
  The board of a \<^verbatim>\<open>VirtualBoard\<close> is a Python list of eight lists. Lists are objects:
  \<^verbatim>\<open>board[x][y] = v\<close> changes the column object that every holder of a reference sees,
  and \<^verbatim>\<open>copy.deepcopy\<close> builds new objects. The heap maps addresses to objects; an
  outer list holds the addresses of its columns, a \<^verbatim>\<open>VirtualBoard\<close> object the address
  of its \<^verbatim>\<open>__board\<close> and its \<^verbatim>\<open>__turn\<close>. A new object takes the address \<open>fresh\<close>.
  A statement returns its outcome together with the heap it leaves, also when it raises.
\<close>

type_synonym addr = nat

datatype obj = Outer "addr list" | Column "int option list" | VBoardObj addr bool

record heap =
  store :: "addr \<Rightarrow> obj option"
  fresh :: addr

type_synonym 'a hm = "heap \<Rightarrow> (error + 'a) \<times> heap"

definition returnH :: "'a \<Rightarrow> 'a hm" where
  "returnH v = (\<lambda>h. (Inr v, h))"

definition liftE :: "error + 'a \<Rightarrow> 'a hm" where
  "liftE r = (\<lambda>h. (r, h))"

definition bindH :: "'a hm \<Rightarrow> ('a \<Rightarrow> 'b hm) \<Rightarrow> 'b hm" where
  "bindH m f = (\<lambda>h. case m h of (Inl e, h') \<Rightarrow> (Inl e, h') | (Inr v, h') \<Rightarrow> f v h')"

definition alloc :: "obj \<Rightarrow> addr hm" where
  "alloc ob = (\<lambda>h. (Inr (fresh h), h\<lparr>store := (store h)(fresh h \<mapsto> ob), fresh := Suc (fresh h)\<rparr>))"

definition writeObj :: "addr \<Rightarrow> obj \<Rightarrow> unit hm" where
  "writeObj a ob = (\<lambda>h. (Inr (), h\<lparr>store := (store h)(a \<mapsto> ob)\<rparr>))"

definition readOuter :: "addr \<Rightarrow> addr list hm" where
  "readOuter a = (\<lambda>h. case store h a of Some (Outer cs) \<Rightarrow> (Inr cs, h) | _ \<Rightarrow> (Inl TypeError, h))"

definition readColumn :: "addr \<Rightarrow> int option list hm" where
  "readColumn a = (\<lambda>h. case store h a of Some (Column col) \<Rightarrow> (Inr col, h) | _ \<Rightarrow> (Inl TypeError, h))"

definition readBoardRef :: "addr \<Rightarrow> addr hm" where
  "readBoardRef self = (\<lambda>h. case store h self of Some (VBoardObj b t) \<Rightarrow> (Inr b, h) | _ \<Rightarrow> (Inl AttributeError, h))"

definition readTurn :: "addr \<Rightarrow> bool hm" where
  "readTurn self = (\<lambda>h. case store h self of Some (VBoardObj b t) \<Rightarrow> (Inr t, h) | _ \<Rightarrow> (Inl AttributeError, h))"

fun forEachH :: "('a \<Rightarrow> unit hm) \<Rightarrow> 'a list \<Rightarrow> unit hm" where
  "forEachH body [] = returnH ()"
| "forEachH body (x # xs) = bindH (body x) (\<lambda>_. forEachH body xs)"

definition hGet2 :: "addr \<Rightarrow> int \<Rightarrow> int \<Rightarrow> int option hm" where
  "hGet2 board x y =
     bindH (readOuter board) (\<lambda>cs.
     bindH (liftE (pyGet cs x)) (\<lambda>c.
     bindH (readColumn c) (\<lambda>col. liftE (pyGet col y))))"

definition updateColumn :: "addr \<Rightarrow> (int option list \<Rightarrow> error + int option list) \<Rightarrow> unit hm" where
  "updateColumn c g =
     bindH (readColumn c) (\<lambda>col.
     bindH (liftE (g col)) (\<lambda>col'. writeObj c (Column col')))"

definition hSet2 :: "addr \<Rightarrow> int \<Rightarrow> int \<Rightarrow> int option \<Rightarrow> unit hm" where
  "hSet2 board x y v =
     bindH (readOuter board) (\<lambda>cs.
     bindH (liftE (pyGet cs x)) (\<lambda>c. updateColumn c (\<lambda>col. pySet col y v)))"

fun copyColumns :: "addr list \<Rightarrow> (addr \<times> addr) list \<Rightarrow> addr list hm" where
  "copyColumns [] memo = returnH []"
| "copyColumns (c # cs) memo =
     (case map_of memo c of
        Some c' \<Rightarrow> bindH (copyColumns cs memo) (\<lambda>r. returnH (c' # r))
      | None \<Rightarrow>
          bindH (readColumn c) (\<lambda>col.
          bindH (alloc (Column col)) (\<lambda>c'.
          bindH (copyColumns cs ((c, c') # memo)) (\<lambda>r. returnH (c' # r)))))"

definition deepcopy :: "addr \<Rightarrow> addr hm" where
  "deepcopy a = bindH (readOuter a) (\<lambda>cs. bindH (copyColumns cs []) (\<lambda>cs'. alloc (Outer cs')))"

definition hBump :: "addr \<Rightarrow> int \<Rightarrow> int \<Rightarrow> unit hm" where
  "hBump board x y =
     bindH (hGet2 board x y) (\<lambda>c.
       case c of
         None \<Rightarrow> liftE (Inl TypeError)
       | Some p \<Rightarrow>
           if (p div 10 = 0 \<or> p div 10 = 1 \<or> p div 10 = 5) \<and> ((p mod 10) div 2) mod 2 = 0
           then hSet2 board x y (Some (p + 2))
           else returnH ())"

definition resetCell :: "int option \<Rightarrow> int option" where
  "resetCell c = (case c of None \<Rightarrow> None | Some p \<Rightarrow> if p div 10 = 0 then Some (p mod 4) else Some p)"

definition hReset :: "addr \<Rightarrow> unit hm" where
  "hReset board =
     bindH (readOuter board) (forEachH (\<lambda>c. updateColumn c (\<lambda>col. Inr (map resetCell col))))"

definition hAddFour :: "addr \<Rightarrow> int \<Rightarrow> int \<Rightarrow> unit hm" where
  "hAddFour board x y =
     bindH (hGet2 board x y) (\<lambda>c.
       case c of None \<Rightarrow> liftE (Inl TypeError) | Some p \<Rightarrow> hSet2 board x y (Some (p + 4)))"

definition hCastleRook :: "addr \<Rightarrow> int \<Rightarrow> int \<Rightarrow> unit hm" where
  "hCastleRook board target corner =
     bindH (hGet2 board corner 7) (\<lambda>rook.
     bindH (hSet2 board target 7 rook) (\<lambda>_. hSet2 board corner 7 None))"

definition hSpecial :: "addr \<Rightarrow> move \<Rightarrow> unit hm" where
  "hSpecial board m =
     (case mtag m of
        None \<Rightarrow> returnH ()
      | Some tag \<Rightarrow>
          bindH (if tag = ''lc'' then hCastleRook board (fst (mdst m) + 1) 0 else returnH ()) (\<lambda>_.
          bindH (if tag = ''rc'' then hCastleRook board (fst (mdst m) - 1) 7 else returnH ()) (\<lambda>_.
            if tag = ''d'' then hAddFour board (fst (mdst m)) (snd (mdst m))
            else hSet2 board (fst (mdst m)) (snd (msrc m)) None)))"

definition hPromote :: "addr \<Rightarrow> int \<Rightarrow> unit hm" where
  "hPromote board promote =
     bindH (readOuter board) (forEachH (\<lambda>c. updateColumn c (promoteColumn promote)))"

definition hReverseRows :: "addr \<Rightarrow> unit hm" where
  "hReverseRows board =
     bindH (readOuter board) (forEachH (\<lambda>c. updateColumn c (\<lambda>col. Inr (rev col))))"

definition hReverse :: "addr \<Rightarrow> unit hm" where
  "hReverse board = bindH (readOuter board) (\<lambda>cs. writeObj board (Outer (rev cs)))"

definition moveStmtsH :: "addr \<Rightarrow> move \<Rightarrow> int \<Rightarrow> unit hm" where
  "moveStmtsH board m promote =
     bindH (hGet2 board (fst (msrc m)) (snd (msrc m))) (\<lambda>moved.
     bindH (hSet2 board (fst (mdst m)) (snd (mdst m)) moved) (\<lambda>_.
     bindH (hSet2 board (fst (msrc m)) (snd (msrc m)) None) (\<lambda>_.
     bindH (hBump board (fst (mdst m)) (snd (mdst m))) (\<lambda>_.
     bindH (hReset board) (\<lambda>_.
     bindH (hSpecial board m) (\<lambda>_.
     bindH (hPromote board promote) (\<lambda>_.
     bindH (hReverseRows board) (\<lambda>_.
     hReverse board))))))))"

definition fakeMoveH :: "addr \<Rightarrow> move \<Rightarrow> int \<Rightarrow> addr hm" where
  "fakeMoveH self m promote =
     bindH (readBoardRef self) (\<lambda>stored.
     bindH (deepcopy stored) (\<lambda>board.
     bindH (moveStmtsH board m promote) (\<lambda>_. returnH board)))"

definition makeMoveH :: "addr \<Rightarrow> move \<Rightarrow> int \<Rightarrow> unit hm" where
  "makeMoveH self m promote =
     bindH (readBoardRef self) (\<lambda>stored.
     bindH (moveStmtsH stored m promote) (\<lambda>_.
     bindH (readTurn self) (\<lambda>t. writeObj self (VBoardObj stored (\<not> t)))))"

fun allocAll :: "obj list \<Rightarrow> addr list hm" where
  "allocAll [] = returnH []"
| "allocAll (ob # obs) = bindH (alloc ob) (\<lambda>a. bindH (allocAll obs) (\<lambda>r. returnH (a # r)))"

definition newVirtualBoard :: "bool \<Rightarrow> addr hm" where
  "newVirtualBoard turn =
     bindH (allocAll (replicate 8 (Column (replicate 8 None)))) (\<lambda>cs.
     bindH (alloc (Outer cs)) (\<lambda>b. alloc (VBoardObj b turn)))"

definition placePieceH :: "addr \<Rightarrow> square \<Rightarrow> int \<Rightarrow> unit hm" where
  "placePieceH self sq piece =
     bindH (readBoardRef self) (\<lambda>stored. hSet2 stored (fst sq) (snd sq) (Some piece))"

definition boardValue :: "heap \<Rightarrow> addr \<Rightarrow> board" where
  "boardValue h a =
     (case store h a of
        Some (Outer cs) \<Rightarrow>
          map (\<lambda>c. case store h c of Some (Column col) \<Rightarrow> col | _ \<Rightarrow> []) cs
      | _ \<Rightarrow> [])"

definition getBoardV :: "heap \<Rightarrow> addr \<Rightarrow> board" where
  "getBoardV h self = (case store h self of Some (VBoardObj b t) \<Rightarrow> boardValue h b | _ \<Rightarrow> [])"

definition getTurnV :: "heap \<Rightarrow> addr \<Rightarrow> bool option" where
  "getTurnV h self = (case store h self of Some (VBoardObj b t) \<Rightarrow> Some t | _ \<Rightarrow> None)"

text \<open>
  \<^verbatim>\<open>getBoard\<close> returns a deep copy of the stored board, \<^verbatim>\<open>getTurn\<close> the stored flag.
  \<open>observeBoard\<close> and \<open>observeTurn\<close> are the values a caller reads through them.
  \<open>vbOk h self\<close>: \<open>self\<close> is a \<^verbatim>\<open>VirtualBoard\<close> whose board and columns are allocated
  objects of the right kinds, the columns pairwise different objects.
\<close>

definition getBoardH :: "addr \<Rightarrow> addr hm" where
  "getBoardH self = bindH (readBoardRef self) deepcopy"

definition getTurnH :: "addr \<Rightarrow> bool hm" where
  "getTurnH self = readTurn self"

definition isColumn :: "heap \<Rightarrow> addr \<Rightarrow> bool" where
  "isColumn h c = (c < fresh h \<and> (case store h c of Some (Column col) \<Rightarrow> True | _ \<Rightarrow> False))"

definition vbOk :: "heap \<Rightarrow> addr \<Rightarrow> bool" where
  "vbOk h self =
     (case store h self of
        Some (VBoardObj stored t) \<Rightarrow>
          self < fresh h \<and> stored < fresh h \<and>
          (case store h stored of
             Some (Outer cs) \<Rightarrow> distinct cs \<and> list_all (isColumn h) cs
           | _ \<Rightarrow> False)
      | _ \<Rightarrow> False)"

definition observeBoard :: "heap \<Rightarrow> addr \<Rightarrow> error + board" where
  "observeBoard h self =
     (case getBoardH self h of
        (Inl e, h') \<Rightarrow> Inl e
      | (Inr r, h') \<Rightarrow> Inr (boardValue h' r))"

definition observeTurn :: "heap \<Rightarrow> addr \<Rightarrow> error + bool" where
  "observeTurn h self = fst (getTurnH self h)"

definition emptyHeap :: heap where
  "emptyHeap = \<lparr>store = (\<lambda>a. None), fresh = 0\<rparr>"

definition exampleHeap :: heap where
  "exampleHeap =
     snd (bindH (newVirtualBoard False) (\<lambda>self.
          bindH (placePieceH self (4, 7) 50) (\<lambda>_.
          bindH (placePieceH self (4, 0) 51) (\<lambda>_. placePieceH self (0, 6) 0))) emptyHeap)"

text \<open>
  What is kept while statements run on the board at address \<open>board\<close>: \<open>keeps n h h'\<close>
  says that every object below address \<open>n\<close> is the same in \<open>h'\<close> as in \<open>h\<close>;
  \<open>rooted n board h\<close> that the board and its columns lie at or above \<open>n\<close>;
  \<open>rep n board h b\<close> that the board at \<open>board\<close> has distinct columns and holds the
  position \<open>b\<close>; \<open>sim n board m f\<close> that the statement \<open>m\<close> on the heap does to that
  board what the function \<open>f\<close> does to the position, exception for exception.
\<close>

definition keeps :: "addr \<Rightarrow> heap \<Rightarrow> heap \<Rightarrow> bool" where
  "keeps n h h' = (fresh h \<le> fresh h' \<and> (\<forall>a. a < n \<longrightarrow> store h' a = store h a))"

definition rooted :: "addr \<Rightarrow> addr \<Rightarrow> heap \<Rightarrow> bool" where
  "rooted n board h =
     (n \<le> board \<and>
      (\<exists>cs. store h board = Some (Outer cs) \<and> (\<forall>c\<in>set cs. n \<le> c)))"

definition preserves :: "addr \<Rightarrow> addr \<Rightarrow> 'a hm \<Rightarrow> bool" where
  "preserves n board m =
     (\<forall>h. rooted n board h \<longrightarrow> rooted n board (snd (m h)) \<and> keeps n h (snd (m h)))"

definition rep :: "addr \<Rightarrow> addr \<Rightarrow> heap \<Rightarrow> board \<Rightarrow> bool" where
  "rep n board h b =
     (n \<le> board \<and>
      (\<exists>cs. store h board = Some (Outer cs) \<and> distinct cs \<and> (\<forall>c\<in>set cs. n \<le> c) \<and>
            map (store h) cs = map (\<lambda>col. Some (Column col)) b))"

definition sim :: "addr \<Rightarrow> addr \<Rightarrow> unit hm \<Rightarrow> (board \<Rightarrow> error + board) \<Rightarrow> bool" where
  "sim n board m f =
     (\<forall>h b. rep n board h b \<longrightarrow>
        (case m h of
           (Inl e, h') \<Rightarrow> f b = Inl e
         | (Inr u, h') \<Rightarrow> (\<exists>b'. f b = Inr b' \<and> rep n board h' b')))"

subsection \<open>The search (NegaMax.py, \<^verbatim>\<open>takeTurn\<close>)\<close>

text \<open>
  The attributes of a \<^verbatim>\<open>NegaMax\<close> object, and with them what the search does to the
  world: \<open>ticks\<close> counts the readings of \<^verbatim>\<open>time.perf_counter()\<close> taken so far, and
  \<open>clicks\<close> lists the moves played with the mouse (start square, end square, whether
  the promotion piece was then picked). The clock is a function from the number of the
  reading to the time read, in milliseconds; \<^verbatim>\<open>__ROE\<close> is in seconds. \<^verbatim>\<open>__bestMove\<close>
  starts as the empty tuple, here \<open>None\<close>.
\<close>

record negamax =
  thinkingTime :: int
  moveComplete :: bool
  moveMade :: bool
  bestMove :: "move option"
  ROE :: int
  maxDepth :: nat
  ticks :: nat
  clicks :: "(square \<times> square \<times> bool) list"

type_synonym clock = "nat \<Rightarrow> int"

definition NegaMax :: negamax where
  "NegaMax = \<lparr>thinkingTime = 0, moveComplete = True, moveMade = True, bestMove = None,
              ROE = 10, maxDepth = 2, ticks = 0, clicks = []\<rparr>"

definition perf_counter :: "clock \<Rightarrow> negamax \<Rightarrow> int \<times> negamax" where
  "perf_counter clock s = (clock (ticks s), s\<lparr>ticks := Suc (ticks s)\<rparr>)"

text \<open>
  \<^verbatim>\<open>__startThinking\<close>: the first three assignments are made before
  \<^verbatim>\<open>board.getAllLegalMoves()[0]\<close> is evaluated, which raises on an empty list.
\<close>

definition startThinking :: "clock \<Rightarrow> negamax \<Rightarrow> vboard \<Rightarrow> (error + unit) \<times> negamax" where
  "startThinking clock s vb =
     (case perf_counter clock s of
        (now, s1) \<Rightarrow>
          let s2 = s1\<lparr>thinkingTime := now, moveComplete := False, moveMade := False\<rparr> in
          (case getAllLegalMoves vb None None of
             Inl e \<Rightarrow> (Inl e, s2)
           | Inr [] \<Rightarrow> (Inl IndexError, s2)
           | Inr (m # ms) \<Rightarrow> (Inr (), s2\<lparr>bestMove := Some m\<rparr>)))"

definition stopThinking :: "negamax \<Rightarrow> negamax" where
  "stopThinking s = s\<lparr>thinkingTime := 0, moveComplete := True, moveMade := True\<rparr>"

definition weaponsTight :: "negamax \<Rightarrow> negamax" where
  "weaponsTight s = s\<lparr>ROE := 10, maxDepth := 2\<rparr>"

definition weaponsFree :: "negamax \<Rightarrow> negamax" where
  "weaponsFree s = s\<lparr>ROE := 3, maxDepth := 1\<rparr>"

text \<open>
  \<^verbatim>\<open>__makeAMove\<close> reads the clock for its log line, and plays \<^verbatim>\<open>__bestMove\<close> with the
  mouse unless the move has been made.
\<close>

definition makeAMove :: "clock \<Rightarrow> negamax \<Rightarrow> bool \<Rightarrow> (error + unit) \<times> negamax" where
  "makeAMove clock s promotion =
     (case perf_counter clock s of
        (now, s1) \<Rightarrow>
          if \<not> moveMade s1 then
            (case bestMove s1 of
               None \<Rightarrow> (Inl IndexError, s1)
             | Some m \<Rightarrow> (Inr (), s1\<lparr>clicks := clicks s1 @ [(msrc m, mdst m, promotion)]\<rparr>))
          else (Inr (), s1))"

text \<open>
  The test \<^verbatim>\<open>board.getBoard()[int(self.__bestMove[0].x)][int(self.__bestMove[0].y)] < 10
  and self.__bestMove[1].y == 0\<close>, on the board of the call that evaluates it. An empty
  square is \<^verbatim>\<open>None\<close>, and \<^verbatim>\<open>None < 10\<close> raises.
\<close>

definition promoteFlag :: "negamax \<Rightarrow> vboard \<Rightarrow> error + bool" where
  "promoteFlag s vb =
     (case bestMove s of
        None \<Rightarrow> Inl IndexError
      | Some m \<Rightarrow>
          bindE (get2 (vbBoard vb) (fst (msrc m)) (snd (msrc m))) (\<lambda>c.
            case c of
              None \<Rightarrow> Inl TypeError
            | Some p \<Rightarrow> Inr (p < 10 \<and> snd (mdst m) = 0)))"

definition forceMove :: "clock \<Rightarrow> negamax \<Rightarrow> vboard \<Rightarrow> (error + unit) \<times> negamax" where
  "forceMove clock s vb =
     (case promoteFlag s vb of
        Inl e \<Rightarrow> (Inl e, s)
      | Inr promote \<Rightarrow>
          (case makeAMove clock s promote of
             (Inl e, s1) \<Rightarrow> (Inl e, s1)
           | (Inr u, s1) \<Rightarrow> (Inr (), stopThinking s1)))"

text \<open>
  The head of \<^verbatim>\<open>takeTurn\<close>: the first call (\<^verbatim>\<open>depth == self.__maxDepth\<close>) starts the
  thinking time; every call then checks the time against \<^verbatim>\<open>__ROE\<close> and forces the move
  when it is over.
\<close>

definition timeCheck :: "clock \<Rightarrow> negamax \<Rightarrow> vboard \<Rightarrow> (error + unit) \<times> negamax" where
  "timeCheck clock s vb =
     (case perf_counter clock s of
        (now, s1) \<Rightarrow>
          if now - thinkingTime s1 \<ge> 1000 * ROE s1 then forceMove clock s1 vb
          else (Inr (), s1))"

definition enter :: "clock \<Rightarrow> nat \<Rightarrow> negamax \<Rightarrow> vboard \<Rightarrow> (error + unit) \<times> negamax" where
  "enter clock depth s vb =
     (if depth = maxDepth s then
        (case startThinking clock s vb of
           (Inl e, s1) \<Rightarrow> (Inl e, s1)
         | (Inr u, s1) \<Rightarrow> timeCheck clock s1 vb)
      else timeCheck clock s vb)"

text \<open>The last call (\<^verbatim>\<open>depth == 0\<close>) returns the evaluation of the position.\<close>

definition leaf :: "clock \<Rightarrow> negamax \<Rightarrow> vboard \<Rightarrow> (error + int option) \<times> negamax" where
  "leaf clock s vb =
     (case perf_counter clock s of
        (now, s1) \<Rightarrow>
          (case boardEval vb (now - thinkingTime s1 > 1000 * ROE s1 - 500) of
             Inl e \<Rightarrow> (Inl e, s1)
           | Inr v \<Rightarrow> (Inr (Some v), s1)))"

text \<open>
  The end of the outermost call: two readings of the clock (the log line and the
  delay), then the move is made with the mouse.
\<close>

definition rootEnd :: "clock \<Rightarrow> negamax \<Rightarrow> vboard \<Rightarrow> (error + int option) \<times> negamax" where
  "rootEnd clock s vb =
     (case perf_counter clock s of
        (t1, s1) \<Rightarrow>
          (case perf_counter clock s1 of
             (t2, s2) \<Rightarrow>
               (case promoteFlag s2 vb of
                  Inl e \<Rightarrow> (Inl e, s2)
                | Inr promote \<Rightarrow>
                    (case makeAMove clock s2 promote of
                       (Inl e, s3) \<Rightarrow> (Inl e, s3)
                     | (Inr u, s3) \<Rightarrow> (Inr None, stopThinking s3)))))"

definition orderedLegalMoves :: "vboard \<Rightarrow> error + move list" where
  "orderedLegalMoves vb =
     bindE (getAllLegalMoves vb None None) (\<lambda>legal. orderMoves (vbBoard vb) legal)"

text \<open>
  \<^verbatim>\<open>takeTurn\<close> at a given depth, and the loop over the ordered moves of a call at depth
  \<open>Suc d\<close>. A call returns an integer, or \<^verbatim>\<open>None\<close> at the end of the outermost call;
  \<^verbatim>\<open>- None\<close> raises.
\<close>

function takeTurn :: "clock \<Rightarrow> nat \<Rightarrow> negamax \<Rightarrow> vboard \<Rightarrow> int \<Rightarrow> int \<Rightarrow> (error + int option) \<times> negamax"
  and moveLoop :: "clock \<Rightarrow> nat \<Rightarrow> negamax \<Rightarrow> vboard \<Rightarrow> move list \<Rightarrow> int \<Rightarrow> int \<Rightarrow> int \<Rightarrow> (error + int) \<times> negamax"
where
  "takeTurn clock 0 s vb alpha beta =
     (case enter clock 0 s vb of
        (Inl e, s1) \<Rightarrow> (Inl e, s1)
      | (Inr u, s1) \<Rightarrow> leaf clock s1 vb)"
| "takeTurn clock (Suc d) s vb alpha beta =
     (case enter clock (Suc d) s vb of
        (Inl e, s1) \<Rightarrow> (Inl e, s1)
      | (Inr u, s1) \<Rightarrow>
          if \<not> moveComplete s1 then
            (case orderedLegalMoves vb of
               Inl e \<Rightarrow> (Inl e, s1)
             | Inr moves \<Rightarrow>
                 (case moveLoop clock d s1 vb moves (- 10000) alpha beta of
                    (Inl e, s2) \<Rightarrow> (Inl e, s2)
                  | (Inr maxScore, s2) \<Rightarrow>
                      if Suc d \<noteq> maxDepth s2 then (Inr (Some maxScore), s2)
                      else rootEnd clock s2 vb))
          else (Inr (Some (- 10000)), s1))"
| "moveLoop clock d s vb [] maxScore alpha beta = (Inr maxScore, s)"
| "moveLoop clock d s vb (m # ms) maxScore alpha beta =
     (case makeMove vb m 4 of
        Inl e \<Rightarrow> (Inl e, s)
      | Inr newBoard \<Rightarrow>
          (case takeTurn clock d s newBoard (- beta) (- alpha) of
             (Inl e, s1) \<Rightarrow> (Inl e, s1)
           | (Inr None, s1) \<Rightarrow> (Inl TypeError, s1)
           | (Inr (Some v), s1) \<Rightarrow>
               let score = - v;
                   maxScore' = (if score > maxScore then score else maxScore);
                   s2 = (if score > maxScore \<and> Suc d = maxDepth s1 then s1\<lparr>bestMove := Some m\<rparr>
                         else s1);
                   alpha' = max alpha maxScore'
               in if alpha' \<ge> beta then (Inr maxScore', s2)
                  else moveLoop clock d s2 vb ms maxScore' alpha' beta))"
  by pat_completeness auto

termination
  by (relation "inv_image (less_than <*lex*> less_than)
        (\<lambda>x. case x of
           Inl (clock, d, s, vb, alpha, beta) \<Rightarrow> (2 * d, 0)
         | Inr (clock, d, s, vb, ms, maxScore, alpha, beta) \<Rightarrow> (2 * d + 1, length ms))")
     auto

declare takeTurn.simps [simp del]

text \<open>\<^verbatim>\<open>takeTurn\<close> as the game calls it: no \<^verbatim>\<open>depth\<close>, the default window.\<close>

definition takeTurnRoot :: "clock \<Rightarrow> negamax \<Rightarrow> vboard \<Rightarrow> (error + int option) \<times> negamax" where
  "takeTurnRoot clock s vb = takeTurn clock (maxDepth s) s vb (- 10000) 10000"

text \<open>
  A clock that reads 0 twice and 20 seconds from then on: the time is over when the
  first position one move below the root is entered.
\<close>

definition lateClock :: clock where
  "lateClock n = (if n < 2 then 0 else 20000)"

section \<open>Properties\<close>

subsection \<open>No exception on a well-formed position\<close>

lemma bindE_Inr [simp]: "bindE (Inr v) f = f v" by (simp add: bindE_def)
lemma bindE_Inl [simp]: "bindE (Inl e) f = Inl e" by (simp add: bindE_def)

lemma pyIndex_in: "0 \<le> i \<Longrightarrow> i < int n \<Longrightarrow> pyIndex n i = Inr (nat i)"
  by (simp add: pyIndex_def)

lemma pyGet_in: "0 \<le> i \<Longrightarrow> i < int (length xs) \<Longrightarrow> pyGet xs i = Inr (xs ! nat i)"
  by (simp add: pyGet_def pyIndex_in)

lemma pySet_in: "0 \<le> i \<Longrightarrow> i < int (length xs) \<Longrightarrow> pySet xs i v = Inr (xs[nat i := v])"
  by (simp add: pySet_def pyIndex_in)

lemma wfBoard_col: "wfBoard b \<Longrightarrow> n < 8 \<Longrightarrow> length (b ! n) = 8"
  by (simp add: wfBoard_def list_all_length)

lemma wfBoard_len: "wfBoard b \<Longrightarrow> length b = 8"
  by (simp add: wfBoard_def)

lemma wfBoard_coli: "wfBoard b \<Longrightarrow> 0 \<le> x \<Longrightarrow> x \<le> 7 \<Longrightarrow> length (b ! nat x) = 8"
  by (rule wfBoard_col) auto

lemma get2_in:
  "wfBoard b \<Longrightarrow> onBoard (x, y) \<Longrightarrow> get2 b x y = Inr (cellAt b x y)"
  by (simp add: get2_def onBoard_def pyGet_in wfBoard_len wfBoard_coli cellAt_def)

lemma set2_in:
  "wfBoard b \<Longrightarrow> onBoard (x, y) \<Longrightarrow>
     set2 b x y v = Inr (b[nat x := (b ! nat x)[nat y := v]])"
  by (simp add: set2_def onBoard_def pyGet_in pySet_in wfBoard_len wfBoard_coli)

lemma wfBoard_update:
  "wfBoard b \<Longrightarrow> wfBoard (b[n := (b ! n)[k := v]])"
  by (cases "n < 8") (auto simp: wfBoard_def list_all_length nth_list_update)

lemma validBoard_cell:
  assumes "validBoard b" "onBoard (x, y)"
  shows "validCell (cellAt b x y)"
proof -
  have x: "nat x < length b" using assms by (auto simp: validBoard_def wfBoard_def onBoard_def)
  have y: "nat y < length (b ! nat x)"
    using assms wfBoard_coli[of b x] by (auto simp: validBoard_def onBoard_def)
  have "list_all validCell (b ! nat x)"
    using assms(1) x by (simp add: validBoard_def list_all_length)
  then show ?thesis using y by (simp add: list_all_length cellAt_def)
qed

lemma validBoard_update:
  "validBoard b \<Longrightarrow> validCell v \<Longrightarrow> validBoard (b[n := (b ! n)[k := v]])"
  by (cases "n < 8"; cases "k < 8")
     (auto simp: validBoard_def wfBoard_def list_all_length nth_list_update)

lemma cellAt_update:
  "wfBoard b \<Longrightarrow> onBoard (x, y) \<Longrightarrow> onBoard (x', y') \<Longrightarrow>
   cellAt (b[nat x := (b ! nat x)[nat y := v]]) x' y' = (if x' = x \<and> y' = y then v else cellAt b x' y')"
  by (auto simp: cellAt_def onBoard_def wfBoard_def list_all_length nth_list_update)

lemma rayY_ok: "snd mv \<noteq> MX \<Longrightarrow> \<exists>y. rayY sq mv j = Inr y"
  by (cases "snd mv") (auto simp: rayY_def)

lemma ray_ne:
  "moving mv \<Longrightarrow> j \<noteq> 0 \<Longrightarrow> rayY sq mv j = Inr y \<Longrightarrow> (rayX sq mv j, y) \<noteq> sq"
  by (cases "fst mv"; cases "snd mv"; cases sq) (auto simp: moving_def rayX_def rayY_def)

lemma rayLoop_good:
  "wfBoard b \<Longrightarrow> moving mv \<Longrightarrow> snd mv \<noteq> MX \<Longrightarrow> (if up then 0 \<le> i else i \<le> 0) \<Longrightarrow>
     \<exists>r. rayLoop tm sq mv b up i = Inr r \<and> (\<forall>d \<in> set r. onBoard d \<and> d \<noteq> sq)"
proof (induction tm sq mv b up i rule: rayLoop.induct)
  case (1 tm sq mv b up i)
  obtain y where y: "rayY sq mv (changer up i) = Inr y"
    using rayY_ok[OF 1(4)] by blast
  have j: "changer up i \<noteq> 0" "if up then 0 \<le> changer up i else changer up i \<le> 0"
    using 1(5) by (auto simp: changer_def split: if_splits)
  have ne: "(rayX sq mv (changer up i), y) \<noteq> sq"
    using ray_ne[OF 1(3) j(1) y] .
  show ?case
  proof (cases "onBoard (rayX sq mv (changer up i), y)")
    case False
    then show ?thesis by (subst rayLoop.simps) (simp add: y)
  next
    case ob: True
    show ?thesis
    proof (cases "cellAt b (rayX sq mv (changer up i)) y")
      case None
      from 1(1)[OF y ob None 1(3) 1(2) 1(3) 1(4) j(2)]
      obtain r where r: "rayLoop tm sq mv b up (changer up i) = Inr r"
        "\<forall>d \<in> set r. onBoard d \<and> d \<noteq> sq" by blast
      show ?thesis
        by (subst rayLoop.simps) (use r ob ne None 1(3) in \<open>simp add: y\<close>)
    next
      case (Some t)
      then show ?thesis
        by (subst rayLoop.simps) (use ob ne in \<open>simp add: y\<close>)
    qed
  qed
qed

lemma infDist_good:
  assumes "wfBoard b" "moving mv" "snd mv \<noteq> MX"
  shows "\<exists>ms. infDist tm sq mv b = Inr ms \<and>
           (\<forall>m \<in> set ms. msrc m = sq \<and> onBoard (mdst m) \<and> mdst m \<noteq> sq \<and> mtag m = None)"
proof -
  obtain r1 where r1: "rayLoop tm sq mv b True 0 = Inr r1" "\<forall>d \<in> set r1. onBoard d \<and> d \<noteq> sq"
    using rayLoop_good[OF assms, of True 0 tm sq] by auto
  obtain r2 where r2: "rayLoop tm sq mv b False 0 = Inr r2" "\<forall>d \<in> set r2. onBoard d \<and> d \<noteq> sq"
    using rayLoop_good[OF assms, of False 0 tm sq] by auto
  show ?thesis using r1 r2
    by (auto simp: infDist_def msrc_def mdst_def mtag_def)
qed

lemma pieceMoves_table:
  "pieceMoves k = Some ml \<Longrightarrow> list_all tablePattern ml"
  by (auto simp: pieceMoves_def kingMoves_def knightMoves_def tablePattern_def split: if_splits)

lemma regularStep_good:
  assumes "wfBoard b" "tablePattern mv"
  shows "\<exists>ms. regularStep tm sq mv b = Inr ms \<and>
           (\<forall>m \<in> set ms. msrc m = sq \<and> onBoard (mdst m) \<and> mdst m \<noteq> sq \<and> mtag m = None)"
proof (cases "fst mv = X \<or> snd mv = X")
  case True
  then have "moving mv" "snd mv \<noteq> MX" using assms(2)
    by (auto simp: moving_def tablePattern_def split: prod.splits comp.splits)
  from infDist_good[OF assms(1) this] show ?thesis using True by (simp add: regularStep_def)
next
  case False
  then obtain a c where mv: "mv = (N a, N c)" "(a, c) \<noteq> (0, 0)" using assms(2)
    by (auto simp: tablePattern_def split: prod.splits comp.splits)
  show ?thesis using mv
    by (cases sq) (auto simp: regularStep_def msrc_def mdst_def mtag_def split: option.splits)
qed

lemma updateRegularMoves_good:
  assumes "wfBoard b"
  shows "list_all tablePattern ml \<Longrightarrow> \<exists>ms. updateRegularMoves tm sq ml b = Inr ms \<and>
           (\<forall>m \<in> set ms. msrc m = sq \<and> onBoard (mdst m) \<and> mdst m \<noteq> sq \<and> mtag m = None)"
proof (induction ml)
  case Nil
  then show ?case by simp
next
  case (Cons mv ml)
  obtain a where a: "regularStep tm sq mv b = Inr a"
     "\<forall>m \<in> set a. msrc m = sq \<and> onBoard (mdst m) \<and> mdst m \<noteq> sq \<and> mtag m = None"
    using regularStep_good[OF assms, of mv tm sq] Cons.prems by auto
  obtain r where r: "updateRegularMoves tm sq ml b = Inr r"
     "\<forall>m \<in> set r. msrc m = sq \<and> onBoard (mdst m) \<and> mdst m \<noteq> sq \<and> mtag m = None"
    using Cons by auto
  show ?case using a r by auto
qed

lemma pawnDir_cases: "pawnDir tm turn = 1 \<or> pawnDir tm turn = - 1"
  by (simp add: pawnDir_def)

lemma pawnAdvance_good:
  assumes "dir = 1 \<or> dir = - 1"
  shows "\<exists>ds. pawnAdvance intGetMovedEver dir sq agent b = Inr ds \<and>
          (\<forall>d \<in> set ds. onBoard (fst d) \<and> fst d \<noteq> sq \<and> (snd d = None \<or> snd d = Some ''d''))"
  using assms by (cases sq) (auto simp: pawnAdvance_def intGetMovedEver_def)

lemma pawnCapture_good:
  assumes "wfBoard b" "onBoard sq" "dir = 1 \<or> dir = - 1" "x = fst sq - 1 \<or> x = fst sq + 1"
  shows "\<exists>ds. pawnCapture intGetTeam intIsPawn intDoubleMoved tm dir b (x, snd sq + dir) = Inr ds \<and>
          (\<forall>d \<in> set ds. onBoard (fst d) \<and> fst d \<noteq> sq \<and> (snd d = None \<or> snd d = Some ''e''))"
proof (cases "0 \<le> x \<and> x \<le> 7 \<and> 0 \<le> snd sq + dir \<and> snd sq + dir \<le> 7")
  case False
  then show ?thesis by (auto simp: pawnCapture_def)
next
  case True
  then have ob: "onBoard (x, snd sq + dir)" by (simp add: onBoard_def)
  have ne: "(x, snd sq + dir) \<noteq> sq" using assms(3) by (cases sq) auto
  have len: "length (b ! nat x) = 8" using wfBoard_coli[OF assms(1)] True by simp
  have g: "pyGet (b ! nat x) (snd sq + dir - dir) = Inr ((b ! nat x) ! nat (snd sq))"
    using assms(2) len by (simp add: pyGet_in onBoard_def)
  show ?thesis using True ob ne g
    by (auto simp: pawnCapture_def intDoubleMoved_def split: option.splits)
qed

lemma updatePawnMoves_good:
  assumes "wfBoard b" "onBoard sq"
  shows "\<exists>ms. updatePawnMoves tm turn sq agent b = Inr ms \<and>
          (\<forall>m \<in> set ms. msrc m = sq \<and> onBoard (mdst m) \<and> mdst m \<noteq> sq \<and>
              (mtag m = None \<or> mtag m = Some ''d'' \<or> mtag m = Some ''e''))"
proof -
  let ?dir = "pawnDir tm turn"
  obtain a where a: "pawnAdvance intGetMovedEver ?dir sq agent b = Inr a"
     "\<forall>d \<in> set a. onBoard (fst d) \<and> fst d \<noteq> sq \<and> (snd d = None \<or> snd d = Some ''d'')"
    using pawnAdvance_good[OF pawnDir_cases] by blast
  obtain l where l: "pawnCapture intGetTeam intIsPawn intDoubleMoved tm ?dir b (fst sq - 1, snd sq + ?dir) = Inr l"
     "\<forall>d \<in> set l. onBoard (fst d) \<and> fst d \<noteq> sq \<and> (snd d = None \<or> snd d = Some ''e'')"
    using pawnCapture_good[OF assms pawnDir_cases, of "fst sq - 1"] by blast
  obtain r where r: "pawnCapture intGetTeam intIsPawn intDoubleMoved tm ?dir b (fst sq + 1, snd sq + ?dir) = Inr r"
     "\<forall>d \<in> set r. onBoard (fst d) \<and> fst d \<noteq> sq \<and> (snd d = None \<or> snd d = Some ''e'')"
    using pawnCapture_good[OF assms pawnDir_cases, of "fst sq + 1"] by blast
  show ?thesis using a l r
    by (auto simp: updatePawnMoves_def updatePawnMovesBody_def msrc_def mdst_def mtag_def)
qed

lemma in_cells:
  "c \<in> set (cells b) \<Longrightarrow>
     fst c < length b \<and> fst (snd c) < length (b ! fst c) \<and> snd (snd c) = b ! fst c ! fst (snd c)"
  by (auto simp: cells_def in_set_enumerate_eq)

lemma movesOfCell_good:
  assumes "validBoard b" "c \<in> set (cells b)"
  shows "\<exists>ms. movesOfCell turn b c = Inr ms \<and> (\<forall>m \<in> set ms. goodMove b m)"
proof -
  have wf: "wfBoard b" using assms(1) by (simp add: validBoard_def)
  obtain x y p where c: "c = (x, y, p)" by (cases c) auto
  from in_cells[OF assms(2)] have xy: "x < length b" "y < length (b ! x)" "p = b ! x ! y"
    by (simp_all add: c)
  have x8: "x < 8" using xy(1) wf by (simp add: wfBoard_def)
  then have y8: "y < 8" using xy(2) wfBoard_col[OF wf x8] by simp
  have ob: "onBoard (int x, int y)" using x8 y8 by (simp add: onBoard_def)
  have cell: "cellAt b (int x) (int y) = p" by (simp add: cellAt_def xy(3))
  show ?thesis
  proof (cases p)
    case None
    then show ?thesis by (simp add: movesOfCell_def c)
  next
    case (Some piece)
    have vc: "validCode piece" using validBoard_cell[OF assms(1) ob] cell Some
      by (simp add: validCell_def)
    show ?thesis
    proof (cases "piece mod 2 = teamInt turn")
      case False
      then show ?thesis by (simp add: movesOfCell_def c Some)
    next
      case tm: True
      show ?thesis
      proof (cases "piece \<ge> 10")
        case True
        then have "piece div 10 \<in> {1, 2, 3, 4, 5}" using vc by (auto simp: validCode_def)
        then obtain ml where ml: "pieceMoves (piece div 10) = Some ml"
          by (auto simp: pieceMoves_def)
        from updateRegularMoves_good[OF wf pieceMoves_table[OF ml], of turn "(int x, int y)"]
        obtain ms where ms: "updateRegularMoves turn (int x, int y) ml b = Inr ms"
          "\<forall>m \<in> set ms. msrc m = (int x, int y) \<and> onBoard (mdst m) \<and> mdst m \<noteq> (int x, int y) \<and> mtag m = None"
          by blast
        show ?thesis using ms ob cell Some True tm ml
          by (auto simp: movesOfCell_def c goodMove_def)
      next
        case False
        from updatePawnMoves_good[OF wf ob, of turn turn piece]
        obtain ms where ms: "updatePawnMoves turn turn (int x, int y) piece b = Inr ms"
          "\<forall>m \<in> set ms. msrc m = (int x, int y) \<and> onBoard (mdst m) \<and> mdst m \<noteq> (int x, int y) \<and>
              (mtag m = None \<or> mtag m = Some ''d'' \<or> mtag m = Some ''e'')"
          by blast
        show ?thesis using ms ob cell Some False tm
          by (auto simp: movesOfCell_def c goodMove_def)
      qed
    qed
  qed
qed

lemma mapE_good:
  "(\<And>x. x \<in> set xs \<Longrightarrow> \<exists>y. f x = Inr y \<and> P y) \<Longrightarrow>
     \<exists>ys. mapE f xs = Inr ys \<and> list_all P ys"
proof (induction xs)
  case Nil
  then show ?case by simp
next
  case (Cons x xs)
  obtain y where y: "f x = Inr y" "P y" using Cons.prems[of x] by auto
  obtain ys where ys: "mapE f xs = Inr ys" "list_all P ys" using Cons by auto
  show ?case using y ys by simp
qed

lemma getAllMovesOn_good:
  assumes "validBoard b"
  shows "\<exists>ms. getAllMovesOn turn b = Inr ms \<and> (\<forall>m \<in> set ms. goodMove b m)"
proof -
  obtain mss where mss: "mapE (movesOfCell turn b) (cells b) = Inr mss"
      "list_all (\<lambda>ms. \<forall>m \<in> set ms. goodMove b m) mss"
    using mapE_good[of "cells b" "movesOfCell turn b" "\<lambda>ms. \<forall>m \<in> set ms. goodMove b m"]
      movesOfCell_good[OF assms] by blast
  show ?thesis using mss by (auto simp: getAllMovesOn_def list_all_iff)
qed

lemma validBoard_wf: "validBoard b \<Longrightarrow> wfBoard b" by (simp add: validBoard_def)

lemma set2_valid:
  assumes "validBoard b" "onBoard (x, y)" "validCell v"
  shows "\<exists>b'. set2 b x y v = Inr b' \<and> validBoard b' \<and>
           (\<forall>x' y'. onBoard (x', y') \<longrightarrow>
              cellAt b' x' y' = (if x' = x \<and> y' = y then v else cellAt b x' y'))"
  using assms set2_in[OF validBoard_wf[OF assms(1)] assms(2), of v]
    validBoard_update[OF assms(1,3)] cellAt_update[OF validBoard_wf[OF assms(1)] assms(2)]
  by auto

lemma code_split: "(p::int) = 10 * (p div 10) + p mod 10" by simp

lemma flag_cases:
  assumes "validCode p"
  shows "p mod 10 = 0 \<or> p mod 10 = 1 \<or> p mod 10 = 2 \<or> p mod 10 = 3 \<or>
         p mod 10 = 4 \<or> p mod 10 = 5 \<or> p mod 10 = 6 \<or> p mod 10 = 7"
proof -
  have "0 \<le> p mod 10" "p mod 10 < 8" using assms by (simp_all add: validCode_def)
  then show ?thesis by arith
qed

lemma add_small:
  assumes "0 \<le> r" "r + k < 10" "0 \<le> k" "p mod 10 = (r::int)"
  shows "(p + k) div 10 = p div 10" "(p + k) mod 10 = r + k"
proof -
  have eq: "p + k = (r + k) + 10 * (p div 10)" using assms(4) code_split[of p] by simp
  have "(p + k) mod 10 = ((r + k) + 10 * (p div 10)) mod 10" by (simp only: eq)
  also have "\<dots> = (r + k) mod 10" by simp
  also have "\<dots> = r + k" using assms by (simp add: mod_pos_pos_trivial)
  finally show "(p + k) mod 10 = r + k" .
  have "(p + k) div 10 = ((r + k) + 10 * (p div 10)) div 10" by (simp only: eq)
  also have "\<dots> = (r + k) div 10 + p div 10" by simp
  also have "\<dots> = p div 10" using assms by (simp add: div_pos_pos_trivial)
  finally show "(p + k) div 10 = p div 10" .
qed

lemma bump_valid:
  assumes "validCode p" "(p div 10 = 0 \<or> p div 10 = 1 \<or> p div 10 = 5)" "((p mod 10) div 2) mod 2 = 0"
  shows "validCode (p + 2) \<and> (p + 2) div 10 = p div 10"
proof -
  have r: "p mod 10 = 0 \<or> p mod 10 = 1 \<or> p mod 10 = 4 \<or> p mod 10 = 5"
    using flag_cases[OF assms(1)] assms(3) by auto
  then obtain r where r': "p mod 10 = r" "0 \<le> r" "r + 2 < 8" by auto
  have d: "(p + 2) div 10 = p div 10" and m: "(p + 2) mod 10 = r + 2"
    using add_small[of r 2 p] r' by simp_all
  have "p + 2 < 60" using assms(2) code_split[of p] r' by auto
  then show ?thesis using assms(1) d m r' by (simp add: validCode_def)
qed

lemma promoted_valid:
  assumes "validCode p" "p < 10"
  shows "validCode (4 * 10 + p)"
proof -
  have "0 \<le> p" "p < 8" using assms by (auto simp: validCode_def)
  have "40 + p = p + 10 * 4" by simp
  then have "(40 + p) mod 10 = (p + 10 * 4) mod 10" by (rule arg_cong)
  also have "\<dots> = p mod 10" by (rule mod_mult_self2)
  also have "\<dots> = p" using \<open>0 \<le> p\<close> \<open>p < 8\<close> by (simp add: mod_pos_pos_trivial)
  finally have "(40 + p) mod 10 = p" .
  then show ?thesis using \<open>0 \<le> p\<close> \<open>p < 8\<close> by (simp add: validCode_def)
qed

lemma bumpMovedEver_valid:
  assumes "validBoard b" "onBoard (x, y)" "cellAt b x y = Some p"
  shows "\<exists>b' p'. bumpMovedEver b x y = Inr b' \<and> validBoard b' \<and> cellAt b' x y = Some p' \<and>
            p' div 10 = p div 10"
proof -
  have vp: "validCode p" using validBoard_cell[OF assms(1,2)] assms(3) by (simp add: validCell_def)
  have g: "get2 b x y = Inr (Some p)" using get2_in[OF validBoard_wf[OF assms(1)] assms(2)] assms(3) by simp
  show ?thesis
  proof (cases "(p div 10 = 0 \<or> p div 10 = 1 \<or> p div 10 = 5) \<and> ((p mod 10) div 2) mod 2 = 0")
    case True
    then have v2: "validCell (Some (p + 2))" "(p + 2) div 10 = p div 10"
      using bump_valid[OF vp] by (auto simp: validCell_def)
    from set2_valid[OF assms(1,2) v2(1)] obtain b' where
      b': "set2 b x y (Some (p + 2)) = Inr b'" "validBoard b'"
        "\<forall>x' y'. onBoard (x', y') \<longrightarrow> cellAt b' x' y' = (if x' = x \<and> y' = y then Some (p + 2) else cellAt b x' y')"
      by blast
    have "cellAt b' x y = Some (p + 2)" using b'(3) assms(2) by simp
    then show ?thesis using True g b' v2 by (simp add: bumpMovedEver_def)
  next
    case False
    then show ?thesis using g assms by (auto simp: bumpMovedEver_def)
  qed
qed

lemma reset_cell_valid:
  "validCell c \<Longrightarrow>
     validCell (case c of None \<Rightarrow> None | Some p \<Rightarrow> if p div 10 = 0 then Some (p mod 4) else Some p)"
  by (cases c) (auto simp: validCell_def validCode_def)

lemma resetDoubleMoved_valid:
  assumes "validBoard b"
  shows "validBoard (resetDoubleMoved b)"
  using assms reset_cell_valid
  by (auto simp: validBoard_def wfBoard_def resetDoubleMoved_def list_all_iff)

lemma resetDoubleMoved_cell:
  assumes "wfBoard b" "onBoard (x, y)"
  shows "cellAt (resetDoubleMoved b) x y =
     (case cellAt b x y of None \<Rightarrow> None | Some p \<Rightarrow> if p div 10 = 0 then Some (p mod 4) else Some p)"
proof -
  have "nat x < length b" using assms by (auto simp: wfBoard_def onBoard_def)
  moreover have "nat y < length (b ! nat x)"
    using assms wfBoard_coli[of b x] by (auto simp: onBoard_def)
  ultimately show ?thesis by (simp add: resetDoubleMoved_def cellAt_def)
qed

lemma addFour_valid:
  assumes "validBoard b" "onBoard (x, y)" "cellAt b x y = Some p" "0 \<le> p" "p < 4"
  shows "\<exists>b'. addFour b x y = Inr b' \<and> validBoard b'"
proof -
  have g: "get2 b x y = Inr (Some p)" using get2_in[OF validBoard_wf[OF assms(1)] assms(2)] assms(3) by simp
  have "validCell (Some (p + 4))" using assms(4,5) by (auto simp: validCell_def validCode_def)
  from set2_valid[OF assms(1,2) this] show ?thesis using g by (auto simp: addFour_def)
qed

lemma promoteColumn_valid:
  assumes "length col = 8" "list_all validCell col"
  shows "\<exists>col'. promoteColumn 4 col = Inr col' \<and> length col' = 8 \<and> list_all validCell col'"
proof -
  have g: "pyGet col 0 = Inr (col ! 0)" using assms(1) by (simp add: pyGet_in)
  have c0: "validCell (col ! 0)" using assms by (simp add: list_all_length)
  show ?thesis
  proof (cases "col ! 0")
    case None
    then show ?thesis using g assms by (simp add: promoteColumn_def)
  next
    case (Some p)
    show ?thesis
    proof (cases "p < 10")
      case True
      have "validCode p" using c0 Some by (simp add: validCell_def)
      then have "validCode (4 * 10 + p)" using True by (rule promoted_valid)
      then have "validCell (Some (4 * 10 + p))" by (simp add: validCell_def)
      then have "list_all validCell (col[0 := Some (4 * 10 + p)])"
        using assms(2) by (auto simp: list_all_iff dest: set_update_subset_insert[THEN subsetD])
      then show ?thesis using g Some True assms(1) by (simp add: promoteColumn_def pySet_in)
    next
      case False
      then show ?thesis using g Some assms by (simp add: promoteColumn_def)
    qed
  qed
qed

lemma promote_all_valid:
  assumes "validBoard b"
  shows "\<exists>b'. mapE (promoteColumn 4) b = Inr b' \<and> validBoard b'"
proof -
  have "\<exists>ys. mapE (promoteColumn 4) b = Inr ys \<and> list_all (\<lambda>col. length col = 8 \<and> list_all validCell col) ys"
  proof (rule mapE_good)
    fix col assume "col \<in> set b"
    then have "length col = 8" "list_all validCell col"
      using assms by (auto simp: validBoard_def wfBoard_def list_all_iff)
    from promoteColumn_valid[OF this]
    show "\<exists>y. promoteColumn 4 col = Inr y \<and> length y = 8 \<and> list_all validCell y" .
  qed
  then obtain ys where ys: "mapE (promoteColumn 4) b = Inr ys"
     "list_all (\<lambda>col. length col = 8 \<and> list_all validCell col) ys" by blast
  have "length ys = length b" using ys(1)
  proof (induction b arbitrary: ys)
    case Nil then show ?case by simp
  next
    case (Cons a b)
    then show ?case by (auto split: sum.splits)
  qed
  then show ?thesis using ys assms
    by (auto simp: validBoard_def wfBoard_def list_all_iff)
qed

lemma rotate_valid: "validBoard b \<Longrightarrow> validBoard (rotate b)"
  by (auto simp: validBoard_def wfBoard_def rotate_def list_all_iff)

lemma moveStmts_valid:
  assumes vb: "validBoard b" and gm: "goodMove b m"
  shows "\<exists>b'. moveStmts b m 4 = Inr b' \<and> validBoard b'"
proof -
  obtain sx sy dx dy tag where m: "m = ((sx, sy), (dx, dy), tag)" by (cases m) auto
  have src: "onBoard (sx, sy)" and dst: "onBoard (dx, dy)" and ne: "(dx, dy) \<noteq> (sx, sy)"
    using gm by (simp_all add: goodMove_def m msrc_def mdst_def)
  obtain p where p: "cellAt b sx sy = Some p"
    and tg: "tag = None \<or> tag = Some ''e'' \<or> (tag = Some ''d'' \<and> p < 10)"
    using gm by (auto simp: goodMove_def m msrc_def mdst_def mtag_def split: option.splits)
  have vp: "validCode p" using validBoard_cell[OF vb src] p by (simp add: validCell_def)
  have g: "get2 b sx sy = Inr (Some p)" using get2_in[OF validBoard_wf[OF vb] src] p by simp
  obtain b1 where b1: "set2 b dx dy (Some p) = Inr b1" "validBoard b1"
      "\<forall>x' y'. onBoard (x', y') \<longrightarrow> cellAt b1 x' y' = (if x' = dx \<and> y' = dy then Some p else cellAt b x' y')"
    using set2_valid[OF vb dst, of "Some p"] vp by (auto simp: validCell_def)
  obtain b2 where b2: "set2 b1 sx sy None = Inr b2" "validBoard b2"
      "\<forall>x' y'. onBoard (x', y') \<longrightarrow> cellAt b2 x' y' = (if x' = sx \<and> y' = sy then None else cellAt b1 x' y')"
    using set2_valid[OF b1(2) src, of None] by (auto simp: validCell_def)
  have c2: "cellAt b2 dx dy = Some p" using b2(3) b1(3) dst ne by auto
  obtain b3 p' where b3: "bumpMovedEver b2 dx dy = Inr b3" "validBoard b3"
      "cellAt b3 dx dy = Some p'" "p' div 10 = p div 10"
    using bumpMovedEver_valid[OF b2(2) dst c2] by blast
  let ?b3r = "resetDoubleMoved b3"
  have v3r: "validBoard ?b3r" using resetDoubleMoved_valid[OF b3(2)] .
  have c3r: "cellAt ?b3r dx dy = (if p' div 10 = 0 then Some (p' mod 4) else Some p')"
    using resetDoubleMoved_cell[OF validBoard_wf[OF b3(2)] dst] b3(3) by simp
  have "\<exists>b4. specialStmts ?b3r m = Inr b4 \<and> validBoard b4"
  proof -
    from tg consider "tag = None" | "tag = Some ''e''" | "tag = Some ''d''" "p < 10" by blast
    then show ?thesis
    proof cases
      case 1
      then show ?thesis using v3r by (simp add: specialStmts_def m mtag_def)
    next
      case 2
      have "onBoard (dx, sy)" using src dst by (simp add: onBoard_def)
      from set2_valid[OF v3r this, of None] show ?thesis using 2
        by (auto simp: specialStmts_def m mtag_def mdst_def msrc_def validCell_def)
    next
      case 3
      have "p div 10 = 0" using 3(2) vp by (auto simp: validCode_def)
      then have c: "cellAt ?b3r dx dy = Some (p' mod 4)" using c3r b3(4) by simp
      have "0 \<le> p' mod 4" "p' mod 4 < 4" by auto
      from addFour_valid[OF v3r dst c this] show ?thesis using 3(1)
        by (auto simp: specialStmts_def m mtag_def mdst_def msrc_def)
    qed
  qed
  then obtain b4 where b4: "specialStmts ?b3r m = Inr b4" "validBoard b4" by blast
  obtain b5 where b5: "mapE (promoteColumn 4) b4 = Inr b5" "validBoard b5"
    using promote_all_valid[OF b4(2)] by blast
  have "moveStmts b m 4 = Inr (rotate b5)"
    using g b1(1) b2(1) b3(1) b4(1) b5(1)
    by (simp add: moveStmts_def m msrc_def mdst_def)
  then show ?thesis using rotate_valid[OF b5(2)] by simp
qed

lemma filterE_total:
  "(\<And>x. x \<in> set xs \<Longrightarrow> f x = Inr (g x)) \<Longrightarrow> filterE f xs = Inr (filter g xs)"
  by (induction xs) auto

lemma hitsKing_good:
  assumes "validBoard b" "goodMove b m"
  shows "hitsKing turn b m =
     Inr (case cellAt b (fst (mdst m)) (snd (mdst m)) of
            None \<Rightarrow> False | Some p \<Rightarrow> p mod 2 \<noteq> teamInt turn \<and> p div 10 = 5)"
proof -
  have "onBoard (fst (mdst m), snd (mdst m))" using assms(2) by (simp add: goodMove_def)
  from get2_in[OF validBoard_wf[OF assms(1)] this] show ?thesis by (simp add: hitsKing_def)
qed

lemma getCheck_good:
  assumes "validBoard b" "b \<noteq> []"
  shows "\<exists>ms. getAllMovesOn (vbTurn vb \<noteq> off) b = Inr ms \<and>
           getCheck vb (Some b) off = Inr (\<exists>m \<in> set ms. attacksKing (vbTurn vb \<noteq> off) b m)"
proof -
  obtain ms where ms: "getAllMovesOn (vbTurn vb \<noteq> off) b = Inr ms" "\<forall>m \<in> set ms. goodMove b m"
    using getAllMovesOn_good[OF assms(1)] by blast
  have "filterE (hitsKing (vbTurn vb \<noteq> off) b) ms = Inr (filter (attacksKing (vbTurn vb \<noteq> off) b) ms)"
    by (rule filterE_total) (use ms(2) hitsKing_good[OF assms(1)] in \<open>simp add: attacksKing_def\<close>)
  then show ?thesis using ms(1) assms(2)
    by (auto simp: getCheck_def boardArg_def filter_empty_conv)
qed

lemma removeAll_filter:
  "removeAll (filter P xs) xs = Inr (filter (\<lambda>x. \<not> P x) xs)"
proof -
  have "\<And>pre. list_all (\<lambda>x. \<not> P x) pre \<Longrightarrow>
          removeAll (filter P xs) (pre @ xs) = Inr (pre @ filter (\<lambda>x. \<not> P x) xs)"
  proof (induction xs)
    case Nil
    then show ?case by simp
  next
    case (Cons x xs)
    show ?case
    proof (cases "P x")
      case True
      have "x \<notin> set pre" using Cons.prems True by (auto simp: list_all_iff)
      then have "remove1 x (pre @ x # xs) = pre @ xs" by (simp add: remove1_append)
      then show ?thesis using True Cons.IH[OF Cons.prems] by (simp add: pyRemove_def)
    next
      case False
      then have "list_all (\<lambda>x. \<not> P x) (pre @ [x])" using Cons.prems by simp
      from Cons.IH[OF this] show ?thesis using False by simp
    qed
  qed
  from this[of "[]"] show ?thesis by simp
qed

lemma cells_mem:
  "x < length b \<Longrightarrow> y < length (b ! x) \<Longrightarrow> (x, y, b ! x ! y) \<in> set (cells b)"
  by (auto simp: cells_def in_set_enumerate_eq intro!: bexI[of _ "(x, b ! x)"])

lemma kingSquares_iff:
  assumes "wfBoard b" "onBoard (x, y)"
  shows "(x, y) \<in> set (kingSquares mover b) \<longleftrightarrow>
           (case cellAt b x y of None \<Rightarrow> False | Some p \<Rightarrow> p div 10 = 5 \<and> p mod 2 = teamInt mover)"
proof
  assume "(x, y) \<in> set (kingSquares mover b)"
  then obtain c where c: "c \<in> set (cells b)" "x = int (fst c)" "y = int (fst (snd c))"
     "case snd (snd c) of None \<Rightarrow> False | Some p \<Rightarrow> p div 10 = 5 \<and> p mod 2 = teamInt mover"
    by (auto simp: kingSquares_def)
  from in_cells[OF c(1)] c(2,3,4) show
    "case cellAt b x y of None \<Rightarrow> False | Some p \<Rightarrow> p div 10 = 5 \<and> p mod 2 = teamInt mover"
    by (simp add: cellAt_def)
next
  assume a: "case cellAt b x y of None \<Rightarrow> False | Some p \<Rightarrow> p div 10 = 5 \<and> p mod 2 = teamInt mover"
  have x: "nat x < length b" using assms by (auto simp: wfBoard_def onBoard_def)
  have y: "nat y < length (b ! nat x)" using assms wfBoard_coli[of b x] by (auto simp: onBoard_def)
  have "(nat x, nat y, b ! nat x ! nat y) \<in> set (cells b)" using cells_mem[OF x y] .
  moreover have "int (nat x) = x" "int (nat y) = y" using assms(2) by (auto simp: onBoard_def)
  ultimately show "(x, y) \<in> set (kingSquares mover b)" using a
    by (force simp: kingSquares_def cellAt_def)
qed

lemma attacksKing_iff:
  assumes "validBoard b" "goodMove b m"
  shows "attacksKing (\<not> mover) b m \<longleftrightarrow> mdst m \<in> set (kingSquares mover b)"
proof -
  have ob: "onBoard (fst (mdst m), snd (mdst m))" using assms(2) by (simp add: goodMove_def)
  have "\<And>p :: int. (p mod 2 \<noteq> teamInt (\<not> mover)) = (p mod 2 = teamInt mover)"
    by (auto simp: teamInt_def)
  then show ?thesis
    using kingSquares_iff[OF validBoard_wf[OF assms(1)] ob, of mover]
    by (auto simp: attacksKing_def split: option.splits)
qed

lemma leavesInCheck_good:
  assumes "validBoard (vbBoard vb)" "goodMove (vbBoard vb) m"
  shows "leavesInCheck vb m = Inr (leavesKingAttacked vb m)"
proof -
  obtain b' where b': "moveStmts (vbBoard vb) m 4 = Inr b'" "validBoard b'"
    using moveStmts_valid[OF assms] by blast
  have ne: "b' \<noteq> []" using b'(2) by (auto simp: validBoard_def wfBoard_def)
  obtain ms where ms: "getAllMovesOn (vbTurn vb \<noteq> True) b' = Inr ms"
     "getCheck vb (Some b') True = Inr (\<exists>m \<in> set ms. attacksKing (vbTurn vb \<noteq> True) b' m)"
    using getCheck_good[OF b'(2) ne, of vb True] by blast
  obtain ms' where ms': "getAllMovesOn (\<not> vbTurn vb) b' = Inr ms'" "\<forall>m \<in> set ms'. goodMove b' m"
    using getAllMovesOn_good[OF b'(2)] by blast
  have eq: "ms' = ms" using ms(1) ms'(1) by simp
  have "(\<exists>m \<in> set ms. attacksKing (\<not> vbTurn vb) b' m) =
        (\<exists>r \<in> set ms. mdst r \<in> set (kingSquares (vbTurn vb) b'))"
    using ms'(2) attacksKing_iff[OF b'(2)] eq by blast
  then show ?thesis using b' ms ms'(1) eq
    by (simp add: leavesInCheck_def leavesKingAttacked_def fakeMove_def)
qed

text \<open>
  C1. On every well-formed position, for the side to move, \<open>getAllLegalMoves\<close> returns
  without an exception, and its result is the list of pseudo-legal moves (in their
  order) without those that leave the mover's king attacked: the moves \<open>m\<close> for which
  \<open>fakeMove\<close> on the copy yields a position where an opposing pseudo-legal move ends
  on the mover's king's square. The excluded moves are dropped, nothing is raised.
\<close>

theorem legal_moves_are_filtered_pseudo_legal:
  assumes "validBoard (vbBoard vb)"
  shows "\<exists>allMoves. getAllMoves vb None None = Inr allMoves \<and>
           getAllLegalMoves vb None None =
             Inr (filter (\<lambda>m. \<not> leavesKingAttacked vb m) allMoves)"
proof -
  obtain ms where ms: "getAllMovesOn (vbTurn vb) (vbBoard vb) = Inr ms"
      "\<forall>m \<in> set ms. goodMove (vbBoard vb) m"
    using getAllMovesOn_good[OF assms] by blast
  have f: "filterE (leavesInCheck vb) ms = Inr (filter (leavesKingAttacked vb) ms)"
    by (rule filterE_total) (use ms(2) leavesInCheck_good[OF assms] in simp)
  show ?thesis using ms(1) f
    by (simp add: getAllMoves_def getAllLegalMoves_def turnArg_def boardArg_def removeAll_filter)
qed


theorem legal_moves_are_filtered_pseudo_legal_witness:
  "validBoard (vbBoard checkExample) \<and>
   (\<exists>allMoves. getAllMoves checkExample None None = Inr allMoves \<and> length allMoves = 5 \<and>
      getAllLegalMoves checkExample None None =
        Inr (filter (\<lambda>m. \<not> leavesKingAttacked checkExample m) allMoves)) \<and>
   map_sum id length (getAllLegalMoves checkExample None None) = Inr 4"
proof -
  have v: "validBoard (vbBoard checkExample)" by code_simp
  have a: "map_sum id length (getAllMoves checkExample None None) = Inr 5" by code_simp
  have l: "map_sum id length (getAllLegalMoves checkExample None None) = Inr 4" by code_simp
  from legal_moves_are_filtered_pseudo_legal[OF v] a l show ?thesis using v by auto
qed


subsection \<open>The piece codec\<close>

lemma encode_decomp:
  "validPiece p \<Longrightarrow> \<exists>f. encodeInt p = pvalue p * 10 + f \<and> 0 \<le> f \<and> f < 8 \<and>
     (f mod 2 \<noteq> 0) = team p \<and>
     ((f - f mod 2) mod 4 \<noteq> 0) = (movedEver p = Some True) \<and>
     (f div 4 \<noteq> 0) = (doubleMoved p = Some True)"
  by (cases "movedEver p"; cases "doubleMoved p"; cases "team p")
     (auto simp: validPiece_def encodeInt_def split: if_splits)

lemma decode_shape:
  assumes "0 \<le> v" "v < 6" "0 \<le> f" "f < 8"
  shows "decodeInt (v * 10 + f) sq =
     (let p0 = (pieceClasses ! nat v) sq (f mod 2 \<noteq> 0);
          p1 = (if (f - f mod 2) mod 4 \<noteq> 0 then movedEverTrue p0 else p0)
      in if f div 4 \<noteq> 0 then doubleMovedTrue p1 else Inr p1)"
proof -
  have dm: "(v * 10 + f) div 10 = v" "(v * 10 + f) mod 10 = f" using assms by auto
  have ix: "pyGet pieceClasses v = Inr (pieceClasses ! nat v)"
    using assms(1,2) by (simp add: pyGet_def pyIndex_def bindE_def pieceClasses_def)
  show ?thesis
    unfolding decodeInt_def dm Let_def ix by (simp add: bindE_def)
qed

lemma valid_value_range:
  assumes "validPiece p"
  shows "0 \<le> pvalue p" "pvalue p < 6"
proof -
  have "pvalue p = 0 \<or> pvalue p = 1 \<or> pvalue p = 2 \<or> pvalue p = 3 \<or> pvalue p = 4 \<or> pvalue p = 5"
    using assms unfolding validPiece_def by presburger
  then show "0 \<le> pvalue p" "pvalue p < 6" by auto
qed

lemma rebuilt_piece:
  assumes "validPiece p"
  shows "\<exists>q. (let p0 = (pieceClasses ! nat (pvalue p)) (psquare p) (team p);
          p1 = (if movedEver p = Some True then movedEverTrue p0 else p0)
      in if doubleMoved p = Some True then doubleMovedTrue p1 else Inr p1) = Inr q \<and>
      pvalue q = pvalue p \<and> team q = team p \<and> movedEver q = movedEver p \<and>
      doubleMoved q = doubleMoved p \<and> psquare q = psquare p"
proof -
  obtain pv tm sq me dm th where p: "p = \<lparr>pvalue = pv, team = tm, psquare = sq, movedEver = me,
      doubleMoved = dm, threatened = th\<rparr>" by (cases p) simp
  have v: "pv = 0 \<or> pv = 1 \<or> pv = 2 \<or> pv = 3 \<or> pv = 4 \<or> pv = 5"
    using assms unfolding validPiece_def p by (auto split: if_splits)
  have me: "me = None \<or> me = Some True \<or> me = Some False" by (cases me) auto
  have dm: "dm = None \<or> dm = Some True \<or> dm = Some False" by (cases dm) auto
  from v me dm show ?thesis using assms unfolding p
    by (elim disjE)
       (simp_all add: Let_def validPiece_def pieceClasses_def Pawn_def Rook_def Knight_def
          Bishop_def Queen_def King_def movedEverTrue_def doubleMovedTrue_def)
qed

lemma decode_encode_shape:
  assumes "validPiece p"
  shows "decodeInt (encodeInt p) (psquare p) =
     (let p0 = (pieceClasses ! nat (pvalue p)) (psquare p) (team p);
          p1 = (if movedEver p = Some True then movedEverTrue p0 else p0)
      in if doubleMoved p = Some True then doubleMovedTrue p1 else Inr p1)"
proof -
  from encode_decomp[OF assms] obtain f where
    fc: "encodeInt p = pvalue p * 10 + f \<and> 0 \<le> f \<and> f < 8 \<and>
         (f mod 2 \<noteq> 0) = team p \<and>
         ((f - f mod 2) mod 4 \<noteq> 0) = (movedEver p = Some True) \<and>
         (f div 4 \<noteq> 0) = (doubleMoved p = Some True)" by (rule exE)
  then have f: "encodeInt p = pvalue p * 10 + f" "0 \<le> f" "f < 8"
     "(f mod 2 \<noteq> 0) = team p" "((f - f mod 2) mod 4 \<noteq> 0) = (movedEver p = Some True)"
     "(f div 4 \<noteq> 0) = (doubleMoved p = Some True)" by simp_all
  show ?thesis
    by (simp only: f(1) decode_shape[OF valid_value_range[OF assms] f(2,3)] f(4,5,6))
qed

text \<open>
  C4. For every piece state that occurs in play (\<open>validPiece\<close>: any of the six kinds,
  either colour, the ever-moved flag of a pawn, rook or king, the attribute a moved
  knight, bishop or queen acquires, and a pawn's double-moved flag, which is set only on
  a pawn that has moved), decoding the code that \<open>encodeInt\<close> produces returns, without
  an exception, a piece of the same kind, colour, ever-moved flag and double-moved flag
  (and on the square given).
\<close>

theorem decode_encode_roundtrip:
  assumes "validPiece p"
  shows "\<exists>q. decodeInt (encodeInt p) (psquare p) = Inr q \<and> pvalue q = pvalue p \<and>
     team q = team p \<and> movedEver q = movedEver p \<and> doubleMoved q = doubleMoved p \<and>
     psquare q = psquare p"
  unfolding decode_encode_shape[OF assms] by (rule rebuilt_piece[OF assms])

theorem decode_encode_roundtrip_witness:
  "validPiece ((Pawn (4, 4) True)\<lparr>movedEver := Some True, doubleMoved := Some True\<rparr>) \<and>
   encodeInt ((Pawn (4, 4) True)\<lparr>movedEver := Some True, doubleMoved := Some True\<rparr>) = 7 \<and>
   (\<exists>q. decodeInt 7 (4, 4) = Inr q \<and> pvalue q = 0 \<and> team q \<and> movedEver q = Some True \<and>
        doubleMoved q = Some True \<and> psquare q = (4, 4))"
proof -
  let ?p = "(Pawn (4, 4) True)\<lparr>movedEver := Some True, doubleMoved := Some True\<rparr>"
  have v: "validPiece ?p" by (simp add: validPiece_def Pawn_def)
  have e: "encodeInt ?p = 7" by (simp add: encodeInt_def Pawn_def)
  show ?thesis using v e decode_encode_roundtrip[OF v] by (simp add: Pawn_def)
qed

subsection \<open>The initial position\<close>

text \<open>
  C8. The virtual board made from the pieces the constructor places, with white (the
  first side) to move, has exactly 20 legal moves, and computing them raises nothing.
\<close>

theorem initial_position_has_20_legal_moves:
  "map_sum id length
     (bindE (createVBoard initialPieces False) (\<lambda>vb. getAllLegalMoves vb None None)) = Inr 20"
  by code_simp

subsection \<open>Castling on the virtual board\<close>

text \<open>
  C2 fails in \<^verbatim>\<open>VirtualBoard.fakeMove\<close> and \<^verbatim>\<open>VirtualBoard.makeMove\<close>. The tag
  tests are three separate \<^verbatim>\<open>if\<close> statements and the \<^verbatim>\<open>else\<close> that removes the
  pawn taken en passant belongs to the last of them, so it also runs for a castle and
  empties \<^verbatim>\<open>board[dest.x][source.y]\<close>, the king's destination. On the example the
  white king castles from (4, 7) to (6, 7) or to (2, 7): the rook lands beside the
  destination, and the returned (rotated) board holds no white king at all.
\<close>

theorem castle_deletes_king:
  "fakeMove castleExample ((4, 7), (6, 7), Some ''rc'') 4 =
     Inr [[None, None, None, None, None, None, None, None],
          [None, None, None, None, None, None, None, None],
          [Some 10, None, None, None, None, None, None, None],
          [None, None, None, None, None, None, None, Some 51],
          [None, None, None, None, None, None, None, None],
          [None, None, None, None, None, None, None, None],
          [None, None, None, None, None, None, None, None],
          [Some 10, None, None, None, None, None, None, None]] \<and>
   fakeMove castleExample ((4, 7), (2, 7), Some ''lc'') 4 =
     Inr [[Some 10, None, None, None, None, None, None, None],
          [None, None, None, None, None, None, None, None],
          [None, None, None, None, None, None, None, None],
          [None, None, None, None, None, None, None, Some 51],
          [Some 10, None, None, None, None, None, None, None],
          [None, None, None, None, None, None, None, None],
          [None, None, None, None, None, None, None, None],
          [None, None, None, None, None, None, None, None]] \<and>
   map_sum id vbBoard (makeMove castleExample ((4, 7), (6, 7), Some ''rc'') 4) =
     fakeMove castleExample ((4, 7), (6, 7), Some ''rc'') 4 \<and>
   map_sum id vbBoard (makeMove castleExample ((4, 7), (2, 7), Some ''lc'') 4) =
     fakeMove castleExample ((4, 7), (2, 7), Some ''lc'') 4"
  by code_simp

subsection \<open>En passant on the two representations\<close>

text \<open>
  C3 fails on the integer representation: its \<^verbatim>\<open>isPawn\<close> lambda tests
  \<^verbatim>\<open>target // 10 == 5\<close>, the value of a king, where the live lambda tests
  \<^verbatim>\<open>isinstance(target, Pawn)\<close>. On the example the live generator yields the move
  tagged \<^verbatim>\<open>"e"\<close> onto (5, 2); on the virtual board made from the same pieces
  neither the pawn's moves nor the legal moves hold a move tagged \<^verbatim>\<open>"e"\<close>.
\<close>

theorem en_passant_missing_on_snapshot:
  "bindE (boardOfPieces enPassantPieces)
     (updatePawnMovesLive True True (4, 3) (enPassantPieces ! 0)) =
     Inr [(((4, 2), None), enPassantPieces ! 0), (((5, 2), Some ''e''), enPassantPieces ! 0)] \<and>
   bindE (createVBoard enPassantPieces True)
     (\<lambda>vb. updatePawnMoves True True (4, 3) (encodeInt (enPassantPieces ! 0)) (vbBoard vb)) =
     Inr [((4, 3), (4, 2), None)] \<and>
   bindE (createVBoard enPassantPieces True) (\<lambda>vb. getAllLegalMoves vb None None) =
     Inr [((3, 7), (2, 6), None), ((3, 7), (2, 7), None), ((3, 7), (3, 6), None),
          ((3, 7), (4, 6), None), ((3, 7), (4, 7), None), ((4, 3), (4, 2), None)]"
  by code_simp

subsection \<open>The check term of the evaluation\<close>

text \<open>
  C5 fails: \<^verbatim>\<open>getCheck()\<close> collects the moves of the stored turn and asks whether
  one of them lands on a king of the other team, so it is true when the enemy king is
  attacked, and \<^verbatim>\<open>getCheck(turnOffset=True)\<close> is true when the mover's own king is.
  The evaluation multiplies their difference by \<open>perilPoints = - 300\<close>. On the example
  the mover's king is in check and the enemy's is not; the fast evaluation is
  \<open>- 10000 + 10000 - 500 + 10 * 4 + 300 + 100\<close>: 300 is added, not subtracted.
\<close>

theorem own_check_adds_300:
  "getCheck checkExample None True = Inr True \<and>
   getCheck checkExample None False = Inr False \<and>
   map_sum id length (getAllLegalMoves checkExample None None) = Inr 4 \<and>
   foldE (fastStep (vbTurn checkExample)) (- 10000) (concat (vbBoard checkExample)) = Inr (- 500) \<and>
   extras checkExample = Inr (10 * 4 + 300) \<and>
   boardEval checkExample True = Inr (- 60)"
  by code_simp

subsection \<open>The evaluation under a swap of sides\<close>

text \<open>
  C6 fails as stated. The score of the mover starts at \<open>- 10000\<close>, gains 10000 for the
  mover's own king, 10 for each legal move of the mover only, the check term and (in
  fast mode) 100; none of these is negated by a swap of sides. On the example position
  the two fast scores are \<open>- 60\<close> and 460 and the two full scores \<open>- 152\<close> and 391; on
  the initial position both fast scores are 300.
\<close>

theorem evaluation_not_zero_sum:
  "boardEval checkExample True \<noteq> map_sum id uminus (boardEval (swapSides checkExample) True) \<and>
   boardEval checkExample True = Inr (- 60) \<and>
   boardEval (swapSides checkExample) True = Inr 460 \<and>
   boardEval checkExample False = Inr (- 152) \<and>
   boardEval (swapSides checkExample) False = Inr 391 \<and>
   bindE (createVBoard initialPieces False) (\<lambda>vb. boardEval vb True) = Inr 300 \<and>
   bindE (createVBoard initialPieces False) (\<lambda>vb. boardEval (swapSides vb) True) = Inr 300"
  by code_simp

lemma points_defined:
  assumes "validCode p" "p < 50"
  shows "\<exists>pts. piecePoints (p div 10) = Some pts"
proof -
  have "0 \<le> p div 10" "p div 10 < 5" using assms by (auto simp: validCode_def)
  then have "p div 10 = 0 \<or> p div 10 = 1 \<or> p div 10 = 2 \<or> p div 10 = 3 \<or> p div 10 = 4" by arith
  then show ?thesis by (auto simp: piecePoints_def)
qed

lemma fastStep_sum:
  assumes "validCell c"
  shows "fastStep side ev c = Inr (ev + signedPoints side c + (if ownKing side c then 10000 else 0))"
proof (cases c)
  case None
  then show ?thesis by (simp add: fastStep_def signedPoints_def ownKing_def)
next
  case (Some p)
  show ?thesis
  proof (cases "p < 50")
    case True
    then obtain pts where "piecePoints (p div 10) = Some pts"
      using points_defined[of p] assms Some by (auto simp: validCell_def)
    then show ?thesis using True Some
      by (simp add: fastStep_def signedPoints_def ownKing_def lookupE_def)
  next
    case False
    then show ?thesis using Some
      by (simp add: fastStep_def signedPoints_def ownKing_def)
  qed
qed

lemma fast_fold_sum:
  "list_all validCell cs \<Longrightarrow>
     foldE (fastStep side) ev cs =
       Inr (ev + sum_list (map (signedPoints side) cs) + 10000 * int (length (filter (ownKing side) cs)))"
proof (induction cs arbitrary: ev)
  case Nil
  then show ?case by simp
next
  case (Cons c cs)
  then have c: "validCell c" and cs: "list_all validCell cs" by simp_all
  show ?case by (simp add: fastStep_sum[OF c] Cons.IH[OF cs])
qed

lemma valid_concat: "validBoard b \<Longrightarrow> list_all validCell (concat b)"
  by (auto simp: validBoard_def list_all_iff)

lemma concat_rotate: "concat (rotate b) = rev (concat b)"
  by (simp add: rotate_def rev_concat rev_map)

lemma signedPoints_swap:
  "signedPoints (\<not> side) c = - signedPoints side c"
proof (cases c)
  case None
  then show ?thesis by (simp add: signedPoints_def)
next
  case (Some p)
  have "p mod 2 = 0 \<or> p mod 2 = 1" by auto
  then show ?thesis using Some
    by (auto simp: signedPoints_def teamInt_def split: option.splits)
qed

lemma sum_list_negated:
  "sum_list (map (\<lambda>c. - f c) xs) = - sum_list (map (f :: 'a \<Rightarrow> int) xs)"
  by (induction xs) simp_all

lemma material_swap: "material (\<not> side) (rotate b) = - material side b"
proof -
  have "sum_list (map (signedPoints (\<not> side)) (rev (concat b))) =
        sum_list (rev (map (signedPoints (\<not> side)) (concat b)))" by (simp add: rev_map)
  also have "\<dots> = sum_list (map (signedPoints (\<not> side)) (concat b))" by (rule sum_list_rev)
  also have "\<dots> = sum_list (map (\<lambda>c. - signedPoints side c) (concat b))"
    using ext[of "signedPoints (\<not> side)" "\<lambda>c. - signedPoints side c", OF signedPoints_swap]
    by simp
  also have "\<dots> = - sum_list (map (signedPoints side) (concat b))"
    by (rule sum_list_negated)
  finally show ?thesis by (simp add: material_def concat_rotate)
qed

lemma ownKings_rotate: "ownKings side (rotate b) = ownKings side b"
  by (simp add: ownKings_def concat_rotate flip: rev_filter)

text \<open>
  C6 as amended. In fast mode the score of a well-formed position is the signed
  material of the mover, plus 10000 for each king of the mover less 10000, plus the
  closing term \<open>extras\<close> (mobility and check) of the mover, plus 100; from the other
  side on the rotated board the material is the negation, and the other three terms are
  the other side's own. Only the material component is zero-sum.
\<close>

theorem evaluation_material_negated:
  assumes "validBoard (vbBoard vb)" "extras vb = Inr e" "extras (swapSides vb) = Inr e'"
  shows "boardEval vb True =
           Inr (material (vbTurn vb) (vbBoard vb) +
                (10000 * ownKings (vbTurn vb) (vbBoard vb) - 10000) + e + 100) \<and>
         boardEval (swapSides vb) True =
           Inr (- material (vbTurn vb) (vbBoard vb) +
                (10000 * ownKings (\<not> vbTurn vb) (vbBoard vb) - 10000) + e' + 100)"
proof -
  have v': "validBoard (rotate (vbBoard vb))" using assms(1) by (rule rotate_valid)
  have 1: "boardEval vb True =
           Inr (material (vbTurn vb) (vbBoard vb) +
                (10000 * ownKings (vbTurn vb) (vbBoard vb) - 10000) + e + 100)"
    using assms(2) fast_fold_sum[OF valid_concat[OF assms(1)]]
    by (simp add: boardEval_def material_def ownKings_def)
  have 2: "boardEval (swapSides vb) True =
           Inr (material (\<not> vbTurn vb) (rotate (vbBoard vb)) +
                (10000 * ownKings (\<not> vbTurn vb) (rotate (vbBoard vb)) - 10000) + e' + 100)"
    using assms(3) fast_fold_sum[OF valid_concat[OF v']]
    by (simp add: boardEval_def material_def ownKings_def swapSides_def)
  show ?thesis using 1 2 by (simp add: material_swap ownKings_rotate)
qed


theorem evaluation_material_negated_witness:
  "validBoard (vbBoard checkExample) \<and> extras checkExample = Inr 340 \<and>
   extras (swapSides checkExample) = Inr (- 140) \<and>
   material (vbTurn checkExample) (vbBoard checkExample) = - 500 \<and>
   boardEval checkExample True = Inr (- 500 + (10000 * 1 - 10000) + 340 + 100) \<and>
   boardEval (swapSides checkExample) True = Inr (500 + (10000 * 1 - 10000) + (- 140) + 100)"
proof -
  have v: "validBoard (vbBoard checkExample)" by code_simp
  have e: "extras checkExample = Inr 340" by code_simp
  have e': "extras (swapSides checkExample) = Inr (- 140)" by code_simp
  have m: "material (vbTurn checkExample) (vbBoard checkExample) = - 500" by code_simp
  have k: "ownKings (vbTurn checkExample) (vbBoard checkExample) = 1"
    "ownKings (\<not> vbTurn checkExample) (vbBoard checkExample) = 1" by code_simp+
  from evaluation_material_negated[OF v e e'] show ?thesis using v e e' m k by simp
qed

subsection \<open>Move ordering\<close>

text \<open>
  C7 fails as stated: the groups are the keys 5, 4, 3, 2, 1, 0 of the \<^verbatim>\<open>taken\<close>
  dictionary, the piece values, not the points of \<^verbatim>\<open>__piecePoints\<close>. A rook has
  value 1 and 500 points, a bishop value 3 and 300 points: on the example the move
  that takes the bishop comes first and the move that takes the rook second.
\<close>

theorem rook_capture_after_bishop_capture:
  "map_sum id (take 2)
     (bindE (getAllLegalMoves captureExample None None) (orderMoves (vbBoard captureExample))) =
     Inr [((3, 4), (6, 4), None), ((3, 4), (3, 1), None)] \<and>
   cellAt (vbBoard captureExample) 6 4 = Some 31 \<and> piecePoints (31 div 10) = Some 300 \<and>
   cellAt (vbBoard captureExample) 3 1 = Some 13 \<and> piecePoints (13 div 10) = Some 500"
  by code_simp

lemma mapE_Inr:
  "mapE f xs = Inr ys \<Longrightarrow> ys = map (\<lambda>x. case f x of Inr y \<Rightarrow> y) xs \<and> (\<forall>x \<in> set xs. \<exists>y. f x = Inr y)"
proof (induction xs arbitrary: ys)
  case Nil
  then show ?case by simp
next
  case (Cons x xs)
  then show ?case by (auto split: sum.splits)
qed

lemma takenKey_range:
  "takenKey b m = Inr k \<Longrightarrow> k \<in> set takenKeys"
proof -
  have r: "\<And>v::int. 0 \<le> v \<Longrightarrow> v \<le> 5 \<Longrightarrow> v = 0 \<or> v = 1 \<or> v = 2 \<or> v = 3 \<or> v = 4 \<or> v = 5" by arith
  assume "takenKey b m = Inr k"
  then show ?thesis
    by (auto simp: takenKey_def takenKeys_def bindE_def split: sum.splits option.splits if_splits dest: r)
qed

lemma group_filter:
  "map snd (filter (\<lambda>km. fst km = k) (zip (map g ms) ms)) = filter (\<lambda>m. g m = k) ms"
  by (induction ms) auto

lemma orderMoves_shape:
  assumes "orderMoves b moves = Inr out"
  shows "out = concat (map (\<lambda>k. orderGroup (filter (\<lambda>m. keyOf b m = k) moves)) takenKeys)"
    and "\<forall>m \<in> set moves. takenKey b m = Inr (keyOf b m)"
proof -
  obtain keys where keys: "mapE (takenKey b) moves = Inr keys"
    using assms by (auto simp: orderMoves_def bindE_def split: sum.splits)
  from mapE_Inr[OF keys] have k1: "keys = map (\<lambda>x. case takenKey b x of Inr y \<Rightarrow> y) moves"
    and k2: "\<forall>x \<in> set moves. \<exists>y. takenKey b x = Inr y" by simp_all
  show ok: "\<forall>m \<in> set moves. takenKey b m = Inr (keyOf b m)"
    using k2 by (auto simp: keyOf_def)
  have "map (\<lambda>x. case takenKey b x of Inr y \<Rightarrow> y) moves = map (keyOf b) moves"
  proof (rule map_cong[OF refl])
    fix x assume "x \<in> set moves"
    then obtain y where "takenKey b x = Inr y" using k2 by blast
    then show "(case takenKey b x of Inr y \<Rightarrow> y) = keyOf b x" by (simp add: keyOf_def)
  qed
  then have "keys = map (keyOf b) moves" using k1 by simp
  then show "out = concat (map (\<lambda>k. orderGroup (filter (\<lambda>m. keyOf b m = k) moves)) takenKeys)"
    using assms keys by (simp add: orderMoves_def group_filter)
qed

lemma mset_orderGroup: "mset (orderGroup g) = mset g"
proof -
  have "mset (filter (\<lambda>m. mtag m \<noteq> None) g) + mset (filter (\<lambda>m. mtag m = None) g) = mset g"
    by (induction g) auto
  then show ?thesis by (simp add: orderGroup_def)
qed

lemma mset_groups:
  "distinct ks \<Longrightarrow>
     mset (concat (map (\<lambda>k. filter (\<lambda>m. g m = k) ms) ks)) = mset (filter (\<lambda>m. g m \<in> set ks) ms)"
proof (induction ks)
  case Nil
  then show ?case by simp
next
  case (Cons k ks)
  have "mset (filter (\<lambda>m. g m = k) ms) + mset (filter (\<lambda>m. g m \<in> set ks) ms) =
        mset (filter (\<lambda>m. g m = k \<or> g m \<in> set ks) ms)"
    using Cons.prems by (induction ms) auto
  then show ?case using Cons by simp
qed

lemma mset_concat_cong:
  "(\<And>k. mset (f k) = mset (h k)) \<Longrightarrow> mset (concat (map f ks)) = mset (concat (map h ks))"
  by (induction ks) auto

lemma orderMoves_perm:
  assumes "orderMoves b moves = Inr out"
  shows "mset out = mset moves"
proof -
  note sh = orderMoves_shape[OF assms]
  have d: "distinct takenKeys" by (simp add: takenKeys_def)
  have "mset out = mset (concat (map (\<lambda>k. filter (\<lambda>m. keyOf b m = k) moves) takenKeys))"
    unfolding sh(1) by (rule mset_concat_cong) (rule mset_orderGroup)
  also have "\<dots> = mset (filter (\<lambda>m. keyOf b m \<in> set takenKeys) moves)"
    by (rule mset_groups[OF d])
  also have "filter (\<lambda>m. keyOf b m \<in> set takenKeys) moves = moves"
    using sh(2) takenKey_range by (auto simp: filter_id_conv)
  finally show ?thesis .
qed

lemma sorted_blocks:
  assumes "\<And>k. k \<in> set ks \<Longrightarrow> sorted_wrt R (blk k)"
    and "\<And>k m. k \<in> set ks \<Longrightarrow> m \<in> set (blk k) \<Longrightarrow> cv m = keyValue k"
    and "\<And>m1 m2. cv m1 > cv m2 \<Longrightarrow> R m1 m2"
  shows "sorted_wrt (\<lambda>k1 k2. keyValue k1 > keyValue k2) ks \<Longrightarrow> sorted_wrt R (concat (map blk ks))"
  using assms(1,2)
proof (induction ks)
  case Nil
  then show ?case by simp
next
  case (Cons k ks)
  have 1: "sorted_wrt R (blk k)" using Cons.prems(2) by simp
  have 2: "sorted_wrt R (concat (map blk ks))"
    using Cons.IH Cons.prems by simp
  have 3: "\<forall>x \<in> set (blk k). \<forall>y \<in> set (concat (map blk ks)). R x y"
  proof (intro ballI)
    fix x y assume x: "x \<in> set (blk k)" and y: "y \<in> set (concat (map blk ks))"
    then obtain k' where k': "k' \<in> set ks" "y \<in> set (blk k')" by auto
    have "cv x = keyValue k" using Cons.prems(3)[of k x] x by simp
    moreover have "cv y = keyValue k'" using Cons.prems(3)[of k' y] k' by simp
    moreover have "keyValue k > keyValue k'" using Cons.prems(1) k'(1) by simp
    ultimately show "R x y" using assms(3) by simp
  qed
  show ?case using 1 2 3 by (simp add: sorted_wrt_append)
qed

lemma sorted_orderGroup:
  assumes "\<And>m. m \<in> set g \<Longrightarrow> captureValue b m = v"
  shows "sorted_wrt (orderedBefore b) (orderGroup g)"
proof -
  have s: "\<And>P. (\<forall>x \<in> set g. \<forall>y \<in> set g. P x \<longrightarrow> P y \<longrightarrow> ((mtag x = None) = (mtag y = None))) \<Longrightarrow>
           sorted_wrt (orderedBefore b) (sort_key prox (filter P g))"
  proof -
    fix P assume a: "\<forall>x \<in> set g. \<forall>y \<in> set g. P x \<longrightarrow> P y \<longrightarrow> ((mtag x = None) = (mtag y = None))"
    have "sorted_wrt (\<lambda>x y. prox x \<le> prox y) (sort_key prox (filter P g))"
      using sorted_sort_key[of prox "filter P g"] by (simp add: sorted_map)
    then show "sorted_wrt (orderedBefore b) (sort_key prox (filter P g))"
    proof (rule sorted_wrt_mono_rel[rotated])
      fix x y assume "x \<in> set (sort_key prox (filter P g))" "y \<in> set (sort_key prox (filter P g))"
        "prox x \<le> prox y"
      then show "orderedBefore b x y" using a assms by (auto simp: orderedBefore_def)
    qed
  qed
  have s1: "sorted_wrt (orderedBefore b) (sort_key prox (filter (\<lambda>m. mtag m \<noteq> None) g))"
    by (rule s) auto
  have s2: "sorted_wrt (orderedBefore b) (sort_key prox (filter (\<lambda>m. mtag m = None) g))"
    by (rule s) auto
  have cross: "\<forall>x \<in> set (sort_key prox (filter (\<lambda>m. mtag m \<noteq> None) g)).
        \<forall>y \<in> set (sort_key prox (filter (\<lambda>m. mtag m = None) g)). orderedBefore b x y"
    using assms by (auto simp: orderedBefore_def)
  show ?thesis unfolding orderGroup_def sorted_wrt_append
    by (intro conjI s1 s2 cross)
qed

text \<open>
  C7 as amended. Whenever \<open>orderMoves\<close> returns, its result is a permutation of the
  input in which a move that takes a piece of higher value (the piece's
  \<^verbatim>\<open>_value\<close>: king 5, queen 4, bishop 3, knight 2, rook 1, pawn 0) precedes a move
  that takes one of lower value, an en passant move counts as taking a pawn (value 0),
  the moves that take nothing come last, within one group the tagged moves precede the
  plain ones, and within those the moves are in the order of \<open>prox\<close>.
\<close>

theorem orderMoves_sorted_by_kind_value:
  assumes "orderMoves b moves = Inr out"
  shows "mset out = mset moves \<and> sorted_wrt (orderedBefore b) out"
proof -
  note sh = orderMoves_shape[OF assms]
  have cv: "\<And>k m. m \<in> set (orderGroup (filter (\<lambda>m. keyOf b m = k) moves)) \<Longrightarrow>
                captureValue b m = keyValue k"
  proof -
    fix k m assume "m \<in> set (orderGroup (filter (\<lambda>m. keyOf b m = k) moves))"
    then have "m \<in> set moves" "keyOf b m = k" by (auto simp: orderGroup_def)
    then show "captureValue b m = keyValue k"
      using sh(2) by (auto simp: captureValue_def keyValue_def split: option.splits)
  qed
  have "sorted_wrt (orderedBefore b)
          (concat (map (\<lambda>k. orderGroup (filter (\<lambda>m. keyOf b m = k) moves)) takenKeys))"
  proof (rule sorted_blocks[where cv = "captureValue b"])
    fix k
    show "sorted_wrt (orderedBefore b) (orderGroup (filter (\<lambda>m. keyOf b m = k) moves))"
    proof (rule sorted_orderGroup)
      fix m assume "m \<in> set (filter (\<lambda>m. keyOf b m = k) moves)"
      then show "captureValue b m = keyValue k"
        using sh(2) by (auto simp: captureValue_def keyValue_def split: option.splits)
    qed
  next
    fix k m assume "m \<in> set (orderGroup (filter (\<lambda>m. keyOf b m = k) moves))"
    then show "captureValue b m = keyValue k" by (rule cv)
  next
    fix m1 m2 assume "captureValue b m1 > captureValue b m2"
    then show "orderedBefore b m1 m2" by (simp add: orderedBefore_def)
  next
    show "sorted_wrt (\<lambda>k1 k2. keyValue k1 > keyValue k2) takenKeys"
      by (simp add: takenKeys_def keyValue_def)
  qed
  then show ?thesis using orderMoves_perm[OF assms] sh(1) by simp
qed


theorem orderMoves_sorted_by_kind_value_witness:
  "orderMoves (vbBoard captureExample)
     [((3, 4), (3, 1), None), ((3, 4), (6, 4), None), ((3, 4), (4, 4), None)] =
     Inr [((3, 4), (6, 4), None), ((3, 4), (3, 1), None), ((3, 4), (4, 4), None)] \<and>
   sorted_wrt (orderedBefore (vbBoard captureExample))
     [((3, 4), (6, 4), None), ((3, 4), (3, 1), None), ((3, 4), (4, 4), None)]"
proof -
  have o: "orderMoves (vbBoard captureExample)
     [((3, 4), (3, 1), None), ((3, 4), (6, 4), None), ((3, 4), (4, 4), None)] =
     Inr [((3, 4), (6, 4), None), ((3, 4), (3, 1), None), ((3, 4), (4, 4), None)]"
    by code_simp
  from orderMoves_sorted_by_kind_value[OF o] show ?thesis using o by blast
qed


subsection \<open>\<^verbatim>\<open>fakeMove\<close> works on a deep copy\<close>

text \<open>
  Every statement of \<^verbatim>\<open>fakeMove\<close> after the copy writes to the copied board or to one
  of its columns only, so the objects below the copy are kept.
\<close>

lemma keeps_refl [simp]: "keeps n h h"
  by (simp add: keeps_def)

lemma keeps_trans: "keeps n h h1 \<Longrightarrow> keeps n h1 h2 \<Longrightarrow> keeps n h h2"
  by (auto simp: keeps_def)

lemma preserves_bind:
  assumes "preserves n board m" "\<And>v. preserves n board (f v)"
  shows "preserves n board (bindH m f)"
  unfolding preserves_def
proof (intro allI impI)
  fix h
  assume r: "rooted n board h"
  obtain res h1 where mh: "m h = (res, h1)" by (cases "m h")
  from assms(1) r mh have r1: "rooted n board h1" and k1: "keeps n h h1"
    by (auto simp: preserves_def)
  show "rooted n board (snd (bindH m f h)) \<and> keeps n h (snd (bindH m f h))"
  proof (cases res)
    case (Inl e)
    then show ?thesis using mh r1 k1 by (simp add: bindH_def)
  next
    case (Inr v)
    from assms(2)[of v] r1 have "rooted n board (snd (f v h1))" "keeps n h1 (snd (f v h1))"
      by (auto simp: preserves_def)
    then show ?thesis using mh Inr k1 by (auto simp: bindH_def intro: keeps_trans)
  qed
qed

lemma preserves_returnH [simp]: "preserves n board (returnH v)"
  by (simp add: preserves_def returnH_def)

lemma preserves_liftE [simp]: "preserves n board (liftE r)"
  by (simp add: preserves_def liftE_def)

lemma preserves_readOuter [simp]: "preserves n board (readOuter a)"
  by (auto simp: preserves_def readOuter_def split: option.splits obj.splits)

lemma preserves_readColumn [simp]: "preserves n board (readColumn a)"
  by (auto simp: preserves_def readColumn_def split: option.splits obj.splits)

lemma preserves_updateColumn:
  assumes "n \<le> c"
  shows "preserves n board (updateColumn c g)"
  unfolding preserves_def
proof (intro allI impI)
  fix h
  assume r: "rooted n board h"
  show "rooted n board (snd (updateColumn c g h)) \<and> keeps n h (snd (updateColumn c g h))"
  proof (cases "store h c")
    case None
    then show ?thesis using r by (simp add: updateColumn_def bindH_def readColumn_def)
  next
    case (Some ob)
    show ?thesis
    proof (cases ob)
      case (Column col)
      then have ne: "c \<noteq> board" using r Some by (auto simp: rooted_def)
      show ?thesis
      proof (cases "g col")
        case (Inl e)
        then show ?thesis using r Some Column
          by (simp add: updateColumn_def bindH_def readColumn_def liftE_def)
      next
        case (Inr col')
        then show ?thesis using r Some Column ne assms
          by (auto simp: updateColumn_def bindH_def readColumn_def liftE_def writeObj_def
              rooted_def keeps_def)
      qed
    qed (use r Some in \<open>simp_all add: updateColumn_def bindH_def readColumn_def\<close>)
  qed
qed

lemma pyGet_mem: "pyGet xs i = Inr v \<Longrightarrow> v \<in> set xs"
  by (auto simp: pyGet_def pyIndex_def bindE_def split: if_splits sum.splits)

lemma preserves_read_then:
  assumes "\<And>cs. \<forall>c\<in>set cs. n \<le> c \<Longrightarrow> preserves n board (f cs)"
  shows "preserves n board (bindH (readOuter board) f)"
  unfolding preserves_def
proof (intro allI impI)
  fix h
  assume r: "rooted n board h"
  then obtain cs where cs: "store h board = Some (Outer cs)" "\<forall>c\<in>set cs. n \<le> c"
    by (auto simp: rooted_def)
  from assms[OF cs(2)] r have "rooted n board (snd (f cs h)) \<and> keeps n h (snd (f cs h))"
    by (simp add: preserves_def)
  then show "rooted n board (snd (bindH (readOuter board) f h)) \<and>
             keeps n h (snd (bindH (readOuter board) f h))"
    using cs(1) by (simp add: bindH_def readOuter_def)
qed

lemma preserves_hGet2 [simp]: "preserves n board (hGet2 board x y)"
  unfolding hGet2_def by (intro preserves_bind preserves_readOuter preserves_liftE preserves_readColumn)

lemma preserves_hSet2 [simp]: "preserves n board (hSet2 board x y v)"
  unfolding hSet2_def
proof (rule preserves_read_then)
  fix cs :: "addr list"
  assume cs: "\<forall>c\<in>set cs. n \<le> c"
  show "preserves n board (bindH (liftE (pyGet cs x)) (\<lambda>c. updateColumn c (\<lambda>col. pySet col y v)))"
    unfolding preserves_def
  proof (intro allI impI)
    fix h
    assume r: "rooted n board h"
    show "rooted n board (snd (bindH (liftE (pyGet cs x)) (\<lambda>c. updateColumn c (\<lambda>col. pySet col y v)) h)) \<and>
          keeps n h (snd (bindH (liftE (pyGet cs x)) (\<lambda>c. updateColumn c (\<lambda>col. pySet col y v)) h))"
    proof (cases "pyGet cs x")
      case (Inl e)
      then show ?thesis using r by (simp add: bindH_def liftE_def)
    next
      case (Inr c)
      then have "n \<le> c" using cs pyGet_mem by fastforce
      from preserves_updateColumn[OF this, of board "\<lambda>col. pySet col y v"] r
      show ?thesis using Inr by (simp add: bindH_def liftE_def preserves_def)
    qed
  qed
qed

lemma preserves_forEachH:
  "(\<And>x. x \<in> set xs \<Longrightarrow> preserves n board (body x)) \<Longrightarrow> preserves n board (forEachH body xs)"
proof (induction xs)
  case Nil
  then show ?case by simp
next
  case (Cons x xs)
  show ?case
    by (simp, rule preserves_bind) (simp_all add: Cons)
qed

lemma preserves_columns:
  "preserves n board (bindH (readOuter board) (forEachH (\<lambda>c. updateColumn c g)))"
  by (rule preserves_read_then, rule preserves_forEachH) (simp add: preserves_updateColumn)

lemma preserves_hReverse [simp]: "preserves n board (hReverse board)"
  by (auto simp: preserves_def hReverse_def bindH_def readOuter_def writeObj_def rooted_def
      keeps_def)

lemma preserves_hBump [simp]: "preserves n board (hBump board x y)"
  unfolding hBump_def
  by (rule preserves_bind) (auto split: option.splits)

lemma preserves_hAddFour [simp]: "preserves n board (hAddFour board x y)"
  unfolding hAddFour_def
  by (rule preserves_bind) (auto split: option.splits)

lemma preserves_hCastleRook [simp]: "preserves n board (hCastleRook board target corner)"
  unfolding hCastleRook_def
  by (intro preserves_bind preserves_hGet2 preserves_hSet2)

lemma preserves_hSpecial [simp]: "preserves n board (hSpecial board m)"
proof (cases "mtag m")
  case None
  then show ?thesis by (simp add: hSpecial_def)
next
  case (Some tag)
  show ?thesis
    unfolding hSpecial_def Some option.case
    by (intro preserves_bind) simp_all
qed

lemma preserves_moveStmtsH: "preserves n board (moveStmtsH board m promote)"
  unfolding moveStmtsH_def hReset_def hPromote_def hReverseRows_def
  by (intro preserves_bind preserves_hGet2 preserves_hSet2 preserves_hBump preserves_columns preserves_hSpecial preserves_hReverse)

text \<open>
  The statements on the heap against the functions on positions of the sections above.
\<close>

lemma pyGet_index:
  "pyGet xs i = Inr v \<Longrightarrow> \<exists>k. pyIndex (length xs) i = Inr k \<and> k < length xs \<and> v = xs ! k"
  by (auto simp: pyGet_def pyIndex_def split: if_splits)

lemma rep_rooted: "rep n board h b \<Longrightarrow> rooted n board h"
  by (auto simp: rep_def rooted_def)

lemma rep_get_column:
  assumes "store h board = Some (Outer cs)" "map (store h) cs = map (\<lambda>col. Some (Column col)) b"
  shows "(\<forall>e. (pyGet cs x = Inl e) = (pyGet b x = Inl e)) \<and>
         (\<forall>c. pyGet cs x = Inr c \<longrightarrow>
            (\<exists>k. k < length cs \<and> length b = length cs \<and> pyIndex (length cs) x = Inr k \<and>
                 c = cs ! k \<and> pyGet b x = Inr (b ! k) \<and> store h c = Some (Column (b ! k))))"
proof -
  have len: "length b = length cs" using assms(2) by (metis length_map)
  have nth: "\<And>k. k < length cs \<Longrightarrow> store h (cs ! k) = Some (Column (b ! k))"
  proof -
    fix k assume k: "k < length cs"
    have "map (store h) cs ! k = map (\<lambda>col. Some (Column col)) b ! k" using assms(2) by simp
    then show "store h (cs ! k) = Some (Column (b ! k))" using k len by simp
  qed
  show ?thesis using len nth
    by (auto simp: pyGet_def pyIndex_def split: if_splits)
qed

lemma rep_hGet2:
  assumes "rep n board h b"
  shows "hGet2 board x y h = (get2 b x y, h)"
proof -
  from assms obtain cs where cs: "store h board = Some (Outer cs)"
    "map (store h) cs = map (\<lambda>col. Some (Column col)) b" by (auto simp: rep_def)
  note g = rep_get_column[OF cs, of x]
  show ?thesis
  proof (cases "pyGet cs x")
    case (Inl e)
    then have "pyGet b x = Inl e" using g by simp
    then show ?thesis using Inl cs(1)
      by (simp add: hGet2_def get2_def bindH_def readOuter_def liftE_def)
  next
    case (Inr c)
    then obtain k where "pyGet b x = Inr (b ! k)" "store h c = Some (Column (b ! k))"
      using g by blast
    then show ?thesis using Inr cs(1)
      by (simp add: hGet2_def get2_def bindH_def readOuter_def liftE_def readColumn_def)
  qed
qed

lemma sim_hSet2: "sim n board (hSet2 board x y v) (\<lambda>b. set2 b x y v)"
  unfolding sim_def
proof (intro allI impI)
  fix h b
  assume r: "rep n board h b"
  then obtain cs where cs: "store h board = Some (Outer cs)"
    "map (store h) cs = map (\<lambda>col. Some (Column col)) b"
    and d: "distinct cs" and ge: "\<forall>c\<in>set cs. n \<le> c" and nb: "n \<le> board"
    by (auto simp: rep_def)
  note g = rep_get_column[OF cs, of x]
  show "case hSet2 board x y v h of
          (Inl e, h') \<Rightarrow> set2 b x y v = Inl e
        | (Inr u, h') \<Rightarrow> \<exists>b'. set2 b x y v = Inr b' \<and> rep n board h' b'"
  proof (cases "pyGet cs x")
    case (Inl e)
    then have "pyGet b x = Inl e" using g by simp
    then show ?thesis using Inl cs(1)
      by (simp add: hSet2_def set2_def bindH_def readOuter_def liftE_def)
  next
    case (Inr c)
    then obtain k where k: "k < length cs" "length b = length cs" "pyIndex (length cs) x = Inr k"
      "c = cs ! k" "pyGet b x = Inr (b ! k)" "store h c = Some (Column (b ! k))"
      using g by blast
    show ?thesis
    proof (cases "pySet (b ! k) y v")
      case (Inl e)
      then show ?thesis using Inr cs(1) k
        by (simp add: hSet2_def set2_def bindH_def readOuter_def liftE_def updateColumn_def
            readColumn_def)
    next
      case col': (Inr col')
      define h' where "h' = h\<lparr>store := (store h)(c \<mapsto> Column col')\<rparr>"
      have run: "hSet2 board x y v h = (Inr (), h')"
        using Inr cs(1) k col'
        by (simp add: hSet2_def bindH_def readOuter_def liftE_def updateColumn_def
            readColumn_def writeObj_def h'_def)
      have pure: "set2 b x y v = Inr (b[k := col'])"
        using k col' by (simp add: set2_def pySet_def)
      have cne: "c \<noteq> board" using k(6) cs(1) by auto
      have m: "map (store h') cs = map (\<lambda>col. Some (Column col)) (b[k := col'])"
      proof (rule nth_equalityI)
        show "length (map (store h') cs) = length (map (\<lambda>col. Some (Column col)) (b[k := col']))"
          using k(2) by simp
      next
        fix i assume "i < length (map (store h') cs)"
        then have i: "i < length cs" by simp
        have old: "store h (cs ! i) = Some (Column (b ! i))"
          using arg_cong[OF cs(2), of "\<lambda>xs. xs ! i"] i k(2) by simp
        show "map (store h') cs ! i = map (\<lambda>col. Some (Column col)) (b[k := col']) ! i"
        proof (cases "i = k")
          case True
          then show ?thesis using i k by (simp add: h'_def)
        next
          case False
          then have "cs ! i \<noteq> c" using d i k(1,4) by (simp add: nth_eq_iff_index_eq)
          then show ?thesis using i k(2) False old by (simp add: h'_def)
        qed
      qed
      have "rep n board h' (b[k := col'])"
        unfolding rep_def using nb cs(1) cne d ge m by (auto simp: h'_def)
      then show ?thesis using run pure by simp
    qed
  qed
qed

lemma simD_Inl: "sim n board m f \<Longrightarrow> rep n board h b \<Longrightarrow> m h = (Inl e, h') \<Longrightarrow> f b = Inl e"
  unfolding sim_def by (drule spec[of _ h], drule spec[of _ b]) simp

lemma simD_Inr:
  "sim n board m f \<Longrightarrow> rep n board h b \<Longrightarrow> m h = (Inr u, h') \<Longrightarrow>
     \<exists>b'. f b = Inr b' \<and> rep n board h' b'"
  unfolding sim_def by (drule spec[of _ h], drule spec[of _ b]) simp

lemma sim_bind:
  assumes "sim n board m f" "sim n board m' f'"
  shows "sim n board (bindH m (\<lambda>_. m')) (\<lambda>b. bindE (f b) f')"
  unfolding sim_def
proof (intro allI impI)
  fix h b
  assume r: "rep n board h b"
  obtain res h1 where mh: "m h = (res, h1)" by (cases "m h")
  show "case bindH m (\<lambda>_. m') h of
          (Inl e, h') \<Rightarrow> bindE (f b) f' = Inl e
        | (Inr u, h') \<Rightarrow> \<exists>b'. bindE (f b) f' = Inr b' \<and> rep n board h' b'"
  proof (cases res)
    case (Inl e)
    then have "f b = Inl e" using simD_Inl[OF assms(1) r] mh by simp
    then show ?thesis using mh Inl by (simp add: bindH_def)
  next
    case (Inr u)
    then have "\<exists>b'. f b = Inr b' \<and> rep n board h1 b'" using simD_Inr[OF assms(1) r] mh by simp
    then obtain b1 where b1: "f b = Inr b1" "rep n board h1 b1" by (elim exE conjE)
    have "case m' h1 of
          (Inl e, h') \<Rightarrow> f' b1 = Inl e
        | (Inr u, h') \<Rightarrow> \<exists>b'. f' b1 = Inr b' \<and> rep n board h' b'"
      using assms(2) b1(2) unfolding sim_def by (drule_tac spec[of _ h1], drule_tac spec[of _ b1]) simp
    then show ?thesis unfolding b1(1) bindE_Inr using mh Inr by (simp add: bindH_def)
  qed
qed

lemma sim_get:
  assumes "\<And>v. sim n board (m v) (f v)"
  shows "sim n board (bindH (hGet2 board x y) m) (\<lambda>b. bindE (get2 b x y) (\<lambda>v. f v b))"
  unfolding sim_def
proof (intro allI impI)
  fix h b
  assume r: "rep n board h b"
  show "case bindH (hGet2 board x y) m h of
          (Inl e, h') \<Rightarrow> bindE (get2 b x y) (\<lambda>v. f v b) = Inl e
        | (Inr u, h') \<Rightarrow> \<exists>b'. bindE (get2 b x y) (\<lambda>v. f v b) = Inr b' \<and> rep n board h' b'"
  proof (cases "get2 b x y")
    case (Inl e)
    then show ?thesis using rep_hGet2[OF r, of x y] by (simp add: bindH_def)
  next
    case (Inr v)
    have "case m v h of
          (Inl e, h') \<Rightarrow> f v b = Inl e
        | (Inr u, h') \<Rightarrow> \<exists>b'. f v b = Inr b' \<and> rep n board h' b'"
      using assms[of v] r unfolding sim_def by (drule_tac spec[of _ h], drule_tac spec[of _ b]) simp
    then show ?thesis unfolding Inr bindE_Inr using rep_hGet2[OF r, of x y] Inr
      by (simp add: bindH_def)
  qed
qed

lemma sim_returnH [simp]: "sim n board (returnH ()) Inr"
  by (simp add: sim_def returnH_def)

lemma sim_raise [simp]: "sim n board (liftE (Inl e)) (\<lambda>b. Inl e)"
  by (simp add: sim_def liftE_def)

lemma sim_cong:
  assumes "sim n board m f" "\<And>b. f b = g b"
  shows "sim n board m g"
proof -
  have "f = g" using assms(2) by (rule ext)
  then show ?thesis using assms(1) by simp
qed

lemma forEach_columns:
  assumes "distinct cs" "map (store h) cs = map (\<lambda>col. Some (Column col)) cols"
  shows "case forEachH (\<lambda>c. updateColumn c g) cs h of
           (Inl e, h') \<Rightarrow> mapE g cols = Inl e
         | (Inr u, h') \<Rightarrow>
             (\<exists>cols'. mapE g cols = Inr cols' \<and>
                map (store h') cs = map (\<lambda>col. Some (Column col)) cols' \<and>
                fresh h' = fresh h \<and>
                (\<forall>a. a \<notin> set cs \<longrightarrow> store h' a = store h a))"
  using assms
proof (induction cs arbitrary: cols h)
  case Nil
  then show ?case by (simp add: returnH_def)
next
  case (Cons c cs)
  from Cons.prems(2) obtain col rest where cols: "cols = col # rest"
    and c: "store h c = Some (Column col)"
    and rest: "map (store h) cs = map (\<lambda>col. Some (Column col)) rest"
    by (cases cols) auto
  from Cons.prems(1) have d: "distinct cs" and nin: "c \<notin> set cs" by simp_all
  show ?case
  proof (cases "g col")
    case (Inl e)
    then show ?thesis using c cols
      by (simp add: bindH_def updateColumn_def readColumn_def liftE_def)
  next
    case col': (Inr col')
    define h1 where "h1 = h\<lparr>store := (store h)(c \<mapsto> Column col')\<rparr>"
    have step: "updateColumn c g h = (Inr (), h1)"
      using c col' by (simp add: bindH_def updateColumn_def readColumn_def liftE_def
          writeObj_def h1_def)
    have "map (store h1) cs = map (store h) cs"
      using nin by (intro map_cong[OF refl]) (auto simp: h1_def)
    then have rest1: "map (store h1) cs = map (\<lambda>col. Some (Column col)) rest"
      using rest by simp
    note ih = Cons.IH[OF d rest1]
    obtain res h2 where run: "forEachH (\<lambda>c. updateColumn c g) cs h1 = (res, h2)"
      by (cases "forEachH (\<lambda>c. updateColumn c g) cs h1")
    show ?thesis
    proof (cases res)
      case (Inl e)
      then have "mapE g rest = Inl e" using ih run by simp
      then show ?thesis using step run Inl cols col' by (simp add: bindH_def)
    next
      case (Inr u)
      then obtain rest' where r': "mapE g rest = Inr rest'"
        "map (store h2) cs = map (\<lambda>col. Some (Column col)) rest'" "fresh h2 = fresh h1"
        "\<forall>a. a \<notin> set cs \<longrightarrow> store h2 a = store h1 a"
        using ih run by auto
      have "store h2 c = Some (Column col')" using r'(4) nin by (simp add: h1_def)
      then show ?thesis using step run Inr cols col' r'
        by (simp add: bindH_def h1_def)
    qed
  qed
qed

lemma columns_allocated:
  assumes "map (store h) cs = map (\<lambda>col. Some (Column col)) b" "a \<in> set cs"
  shows "\<exists>col. store h a = Some (Column col)"
proof -
  have "store h a \<in> set (map (store h) cs)" using assms(2) by simp
  then have "store h a \<in> set (map (\<lambda>col. Some (Column col)) b)" using assms(1) by simp
  then show ?thesis by auto
qed

lemma board_not_column:
  assumes "store h board = Some (Outer cs)" "map (store h) cs = map (\<lambda>col. Some (Column col)) b"
  shows "board \<notin> set cs"
proof
  assume "board \<in> set cs"
  from columns_allocated[OF assms(2) this] show False using assms(1) by simp
qed

lemma sim_columns:
  "sim n board (bindH (readOuter board) (forEachH (\<lambda>c. updateColumn c g))) (mapE g)"
  unfolding sim_def
proof (intro allI impI)
  fix h b
  assume r: "rep n board h b"
  then obtain cs where cs: "store h board = Some (Outer cs)"
    "map (store h) cs = map (\<lambda>col. Some (Column col)) b"
    and d: "distinct cs" and ge: "\<forall>c\<in>set cs. n \<le> c" and nb: "n \<le> board"
    unfolding rep_def by (elim conjE exE)
  note bnin = board_not_column[OF cs]
  note fc = forEach_columns[OF d cs(2), of g]
  obtain res h' where run: "forEachH (\<lambda>c. updateColumn c g) cs h = (res, h')"
    by (cases "forEachH (\<lambda>c. updateColumn c g) cs h")
  have eq: "bindH (readOuter board) (forEachH (\<lambda>c. updateColumn c g)) h = (res, h')"
    using cs(1) run by (simp add: bindH_def readOuter_def)
  show "case bindH (readOuter board) (forEachH (\<lambda>c. updateColumn c g)) h of
          (Inl e, h') \<Rightarrow> mapE g b = Inl e
        | (Inr u, h') \<Rightarrow> \<exists>b'. mapE g b = Inr b' \<and> rep n board h' b'"
  proof (cases res)
    case (Inl e)
    have "mapE g b = Inl e" using fc unfolding run Inl by simp
    then show ?thesis unfolding eq Inl by simp
  next
    case (Inr u)
    have "\<exists>cols'. mapE g b = Inr cols' \<and>
                map (store h') cs = map (\<lambda>col. Some (Column col)) cols' \<and>
                fresh h' = fresh h \<and>
                (\<forall>a. a \<notin> set cs \<longrightarrow> store h' a = store h a)"
      using fc unfolding run Inr by simp
    then obtain b' where b': "mapE g b = Inr b'"
      "map (store h') cs = map (\<lambda>col. Some (Column col)) b'" "fresh h' = fresh h"
      "\<forall>a. a \<notin> set cs \<longrightarrow> store h' a = store h a"
      by (elim exE conjE)
    have "store h' board = Some (Outer cs)" using b'(4) bnin cs(1) by simp
    then have "rep n board h' b'"
      unfolding rep_def using nb d ge b'(2) by (intro conjI exI[of _ cs]) simp_all
    then show ?thesis unfolding eq Inr using b'(1) by simp
  qed
qed

lemma mapE_total: "mapE (\<lambda>x. Inr (f x)) xs = Inr (map f xs)"
  by (induction xs) simp_all

lemma sim_hReset: "sim n board (hReset board) (\<lambda>b. Inr (resetDoubleMoved b))"
  unfolding hReset_def
  by (rule sim_cong[OF sim_columns])
     (simp add: mapE_total resetDoubleMoved_def resetCell_def)

lemma sim_hPromote: "sim n board (hPromote board promote) (mapE (promoteColumn promote))"
  unfolding hPromote_def by (rule sim_columns)

lemma sim_hReverseRows: "sim n board (hReverseRows board) (\<lambda>b. Inr (map rev b))"
  unfolding hReverseRows_def
  by (rule sim_cong[OF sim_columns]) (simp add: mapE_total)

lemma sim_hReverse: "sim n board (hReverse board) (\<lambda>b. Inr (rev b))"
  unfolding sim_def
proof (intro allI impI)
  fix h b
  assume r: "rep n board h b"
  then obtain cs where cs: "store h board = Some (Outer cs)"
    "map (store h) cs = map (\<lambda>col. Some (Column col)) b"
    and d: "distinct cs" and ge: "\<forall>c\<in>set cs. n \<le> c" and nb: "n \<le> board"
    unfolding rep_def by (elim conjE exE)
  note bnin = board_not_column[OF cs]
  define h' where "h' = h\<lparr>store := (store h)(board \<mapsto> Outer (rev cs))\<rparr>"
  have run: "hReverse board h = (Inr (), h')"
    using cs(1) by (simp add: hReverse_def bindH_def readOuter_def writeObj_def h'_def)
  have same: "map (store h') cs = map (store h) cs"
    using bnin by (intro map_cong[OF refl]) (auto simp: h'_def)
  have "map (store h') (rev cs) = rev (map (store h') cs)" by (simp add: rev_map)
  also have "\<dots> = rev (map (\<lambda>col. Some (Column col)) b)" using same cs(2) by simp
  also have "\<dots> = map (\<lambda>col. Some (Column col)) (rev b)" by (simp add: rev_map)
  finally have "map (store h') (rev cs) = map (\<lambda>col. Some (Column col)) (rev b)" .
  moreover have "store h' board = Some (Outer (rev cs))" by (simp add: h'_def)
  ultimately have "rep n board h' (rev b)"
    unfolding rep_def using nb d ge by (intro conjI exI[of _ "rev cs"]) simp_all
  then show "case hReverse board h of
          (Inl e, h') \<Rightarrow> Inr (rev b) = Inl e
        | (Inr u, h') \<Rightarrow> \<exists>b'. Inr (rev b) = Inr b' \<and> rep n board h' b'"
    using run by simp
qed

lemma sim_hBump: "sim n board (hBump board x y) (\<lambda>b. bumpMovedEver b x y)"
  unfolding hBump_def bumpMovedEver_def
proof (rule sim_get)
  fix v
  show "sim n board
          (case v of None \<Rightarrow> liftE (Inl TypeError)
           | Some p \<Rightarrow>
               if (p div 10 = 0 \<or> p div 10 = 1 \<or> p div 10 = 5) \<and> p mod 10 div 2 mod 2 = 0
               then hSet2 board x y (Some (p + 2)) else returnH ())
          (\<lambda>b. case v of None \<Rightarrow> Inl TypeError
           | Some p \<Rightarrow>
               if (p div 10 = 0 \<or> p div 10 = 1 \<or> p div 10 = 5) \<and> p mod 10 div 2 mod 2 = 0
               then set2 b x y (Some (p + 2)) else Inr b)"
    by (cases v) (simp_all add: sim_hSet2)
qed

lemma sim_hAddFour: "sim n board (hAddFour board x y) (\<lambda>b. addFour b x y)"
  unfolding hAddFour_def addFour_def
proof (rule sim_get)
  fix v
  show "sim n board
          (case v of None \<Rightarrow> liftE (Inl TypeError) | Some p \<Rightarrow> hSet2 board x y (Some (p + 4)))
          (\<lambda>b. case v of None \<Rightarrow> Inl TypeError | Some p \<Rightarrow> set2 b x y (Some (p + 4)))"
    by (cases v) (simp_all add: sim_hSet2)
qed

lemma sim_hCastleRook:
  "sim n board (hCastleRook board target corner) (\<lambda>b. castleRook b target corner)"
  unfolding hCastleRook_def castleRook_def
  by (rule sim_get, rule sim_bind) (rule sim_hSet2)+

lemma sim_hSpecial: "sim n board (hSpecial board m) (\<lambda>b. specialStmts b m)"
proof (cases "mtag m")
  case None
  then show ?thesis by (simp add: hSpecial_def specialStmts_def)
next
  case (Some tag)
  have lc: "sim n board (if tag = ''lc'' then hCastleRook board (fst (mdst m) + 1) 0 else returnH ())
              (\<lambda>b. if tag = ''lc'' then castleRook b (fst (mdst m) + 1) 0 else Inr b)"
    by (simp add: sim_hCastleRook)
  have rc: "sim n board (if tag = ''rc'' then hCastleRook board (fst (mdst m) - 1) 7 else returnH ())
              (\<lambda>b. if tag = ''rc'' then castleRook b (fst (mdst m) - 1) 7 else Inr b)"
    by (simp add: sim_hCastleRook)
  have d: "sim n board (if tag = ''d'' then hAddFour board (fst (mdst m)) (snd (mdst m))
                        else hSet2 board (fst (mdst m)) (snd (msrc m)) None)
              (\<lambda>b. if tag = ''d'' then addFour b (fst (mdst m)) (snd (mdst m))
                   else set2 b (fst (mdst m)) (snd (msrc m)) None)"
    by (simp add: sim_hAddFour sim_hSet2)
  show ?thesis
    unfolding hSpecial_def specialStmts_def Some option.case
    by (rule sim_bind[OF lc sim_bind[OF rc d]])
qed

lemma moveStmts_chain:
  "moveStmts b m promote =
     bindE (get2 b (fst (msrc m)) (snd (msrc m))) (\<lambda>moved.
     bindE (set2 b (fst (mdst m)) (snd (mdst m)) moved) (\<lambda>b1.
     bindE (set2 b1 (fst (msrc m)) (snd (msrc m)) None) (\<lambda>b2.
     bindE (bumpMovedEver b2 (fst (mdst m)) (snd (mdst m))) (\<lambda>b3.
     bindE (Inr (resetDoubleMoved b3)) (\<lambda>b4.
     bindE (specialStmts b4 m) (\<lambda>b5.
     bindE (mapE (promoteColumn promote) b5) (\<lambda>b6.
     bindE (Inr (map rev b6)) (\<lambda>b7. Inr (rev b7)))))))))"
  by (simp add: moveStmts_def rotate_def)

lemma sim_moveStmtsH: "sim n board (moveStmtsH board m promote) (\<lambda>b. moveStmts b m promote)"
  unfolding moveStmtsH_def moveStmts_chain
  by (rule sim_get, intro sim_bind)
     (rule sim_hSet2 sim_hBump sim_hReset sim_hSpecial sim_hPromote sim_hReverseRows sim_hReverse)+

text \<open>The copy: new columns at the next free addresses, then a new outer list.\<close>

lemma rep_boardValue:
  assumes "store h board = Some (Outer cs)" "map (store h) cs = map (\<lambda>col. Some (Column col)) b"
  shows "boardValue h board = b"
proof -
  have "map (\<lambda>c. case store h c of Some (Column col) \<Rightarrow> col | _ \<Rightarrow> []) cs =
        map (\<lambda>ob. case ob of Some (Column col) \<Rightarrow> col | _ \<Rightarrow> []) (map (store h) cs)"
    by simp
  also have "\<dots> = b" unfolding assms(2) by (simp add: map_idI)
  finally show ?thesis using assms(1) by (simp add: boardValue_def)
qed

lemma columns_value:
  assumes "list_all (isColumn h) cs"
  shows "map (store h) cs =
         map (\<lambda>col. Some (Column col))
           (map (\<lambda>c. case store h c of Some (Column col) \<Rightarrow> col | _ \<Rightarrow> []) cs)"
  using assms
  by (induction cs) (auto simp: isColumn_def split: option.splits obj.splits)

lemma copyColumns_fresh:
  assumes "distinct cs" "\<forall>c\<in>set cs. c < fresh h"
    "map (store h) cs = map (\<lambda>col. Some (Column col)) cols"
    "\<forall>c\<in>set cs. map_of memo c = None"
  shows "\<exists>h'. copyColumns cs memo h = (Inr [fresh h ..< fresh h + length cs], h') \<and>
              fresh h' = fresh h + length cs \<and> keeps (fresh h) h h' \<and>
              map (store h') [fresh h ..< fresh h + length cs] = map (\<lambda>col. Some (Column col)) cols"
  using assms
proof (induction cs arbitrary: memo h cols)
  case Nil
  then show ?case by (simp add: returnH_def)
next
  case (Cons c cs)
  from Cons.prems(3) obtain col rest where cols: "cols = col # rest"
    and c: "store h c = Some (Column col)"
    and rest: "map (store h) cs = map (\<lambda>col. Some (Column col)) rest"
    by (cases cols) auto
  from Cons.prems(1) have d: "distinct cs" and nin: "c \<notin> set cs" by simp_all
  from Cons.prems(4) have memo: "map_of memo c = None" by simp
  define h1 where "h1 = h\<lparr>store := (store h)(fresh h \<mapsto> Column col), fresh := Suc (fresh h)\<rparr>"
  have f1: "fresh h1 = Suc (fresh h)" by (simp add: h1_def)
  have below: "\<forall>c\<in>set cs. c < fresh h1"
    using Cons.prems(2) by (auto simp: h1_def intro: less_SucI)
  have "map (store h1) cs = map (store h) cs"
    using Cons.prems(2) by (intro map_cong[OF refl]) (auto simp: h1_def)
  then have rest1: "map (store h1) cs = map (\<lambda>col. Some (Column col)) rest" using rest by simp
  have memo1: "\<forall>c'\<in>set cs. map_of ((c, fresh h) # memo) c' = None"
    using Cons.prems(4) nin by auto
  from Cons.IH[OF d below rest1 memo1] obtain h' where
    run: "copyColumns cs ((c, fresh h) # memo) h1 = (Inr [fresh h1 ..< fresh h1 + length cs], h')"
    and fr: "fresh h' = fresh h1 + length cs"
    and k: "keeps (fresh h1) h1 h'"
    and m: "map (store h') [fresh h1 ..< fresh h1 + length cs] = map (\<lambda>col. Some (Column col)) rest"
    by (elim exE conjE)
  have upt: "[fresh h ..< fresh h + length (c # cs)] = fresh h # [fresh h1 ..< fresh h1 + length cs]"
    by (subst upt_rec) (simp add: f1)
  have whole: "copyColumns (c # cs) memo h = (Inr [fresh h ..< fresh h + length (c # cs)], h')"
    unfolding upt using memo c run
    by (simp add: bindH_def readColumn_def alloc_def returnH_def h1_def)
  have first: "store h' (fresh h) = Some (Column col)"
    using k by (simp add: keeps_def h1_def)
  have kept: "keeps (fresh h) h h'"
    using k by (simp add: keeps_def h1_def)
  have vals: "map (store h') [fresh h ..< fresh h + length (c # cs)] =
              map (\<lambda>col. Some (Column col)) cols"
    unfolding upt cols using first m by simp
  show ?case using whole fr kept vals by (simp add: f1)
qed

lemma deepcopy_rep:
  assumes "store h a = Some (Outer cs)" "distinct cs" "\<forall>c\<in>set cs. c < fresh h"
    "map (store h) cs = map (\<lambda>col. Some (Column col)) b"
  shows "\<exists>r h'. deepcopy a h = (Inr r, h') \<and> fresh h \<le> r \<and> rep (fresh h) r h' b \<and>
                keeps (fresh h) h h' \<and> fresh h \<le> fresh h'"
proof -
  from copyColumns_fresh[OF assms(2,3,4), of "[]"] obtain h1 where
    run: "copyColumns cs [] h = (Inr [fresh h ..< fresh h + length cs], h1)"
    and fr: "fresh h1 = fresh h + length cs"
    and k: "keeps (fresh h) h h1"
    and m: "map (store h1) [fresh h ..< fresh h + length cs] = map (\<lambda>col. Some (Column col)) b"
    by auto
  define cs' where "cs' = [fresh h ..< fresh h + length cs]"
  define h' where "h' = h1\<lparr>store := (store h1)(fresh h1 \<mapsto> Outer cs'), fresh := Suc (fresh h1)\<rparr>"
  have dc: "deepcopy a h = (Inr (fresh h1), h')"
    using assms(1) run
    by (simp add: deepcopy_def bindH_def readOuter_def alloc_def h'_def cs'_def)
  have "map (store h') cs' = map (store h1) cs'"
    by (intro map_cong[OF refl]) (auto simp: h'_def cs'_def fr)
  then have m': "map (store h') cs' = map (\<lambda>col. Some (Column col)) b"
    using m by (simp add: cs'_def)
  have "rep (fresh h) (fresh h1) h' b"
    unfolding rep_def using m'
    by (intro conjI exI[of _ cs']) (simp_all add: fr h'_def cs'_def)
  moreover have "keeps (fresh h) h h'" using k by (simp add: keeps_def h'_def fr)
  ultimately show ?thesis using dc by (simp add: fr h'_def)
qed

lemma vbOk_parts:
  assumes "vbOk h self"
  shows "\<exists>stored t cs. store h self = Some (VBoardObj stored t) \<and> self < fresh h \<and>
           stored < fresh h \<and> store h stored = Some (Outer cs) \<and> distinct cs \<and>
           list_all (isColumn h) cs"
  using assms by (auto simp: vbOk_def split: option.splits obj.splits)

lemma vbOk_kept:
  assumes "vbOk h self" "keeps (fresh h) h h'" "fresh h \<le> fresh h'"
  shows "vbOk h' self"
proof -
  from vbOk_parts[OF assms(1)] obtain stored t cs where p:
    "store h self = Some (VBoardObj stored t)" "self < fresh h" "stored < fresh h"
    "store h stored = Some (Outer cs)" "distinct cs" "list_all (isColumn h) cs"
    by (elim exE conjE)
  have "list_all (isColumn h') cs"
    using p(6) assms(2,3) by (auto simp: list_all_iff isColumn_def keeps_def)
  then show ?thesis using p assms(2,3) by (simp add: vbOk_def keeps_def)
qed

lemma observe_stored:
  assumes "vbOk h self"
  shows "\<exists>stored t. store h self = Some (VBoardObj stored t) \<and>
           observeBoard h self = Inr (boardValue h stored) \<and> observeTurn h self = Inr t"
proof -
  from vbOk_parts[OF assms] obtain stored t cs where p:
    "store h self = Some (VBoardObj stored t)" "self < fresh h" "stored < fresh h"
    "store h stored = Some (Outer cs)" "distinct cs" "list_all (isColumn h) cs"
    by (elim exE conjE)
  have below: "\<forall>c\<in>set cs. c < fresh h" using p(6) by (simp add: list_all_iff isColumn_def)
  note cv = columns_value[OF p(6)]
  have bv: "boardValue h stored =
            map (\<lambda>c. case store h c of Some (Column col) \<Rightarrow> col | _ \<Rightarrow> []) cs"
    using p(4) by (simp add: boardValue_def)
  from deepcopy_rep[OF p(4,5) below cv] obtain r h' where
    dc: "deepcopy stored h = (Inr r, h')" and rp: "rep (fresh h) r h' (boardValue h stored)"
    unfolding bv by (elim exE conjE)
  from rp obtain cs' where "store h' r = Some (Outer cs')"
    "map (store h') cs' = map (\<lambda>col. Some (Column col)) (boardValue h stored)"
    unfolding rep_def by (elim exE conjE)
  then have "boardValue h' r = boardValue h stored" by (rule rep_boardValue)
  then have "observeBoard h self = Inr (boardValue h stored)"
    using p(1) dc by (simp add: observeBoard_def getBoardH_def bindH_def readBoardRef_def)
  moreover have "observeTurn h self = Inr t"
    using p(1) by (simp add: observeTurn_def getTurnH_def readTurn_def)
  ultimately show ?thesis using p(1) by simp
qed

lemma preservesD:
  "preserves n board m \<Longrightarrow> rooted n board h \<Longrightarrow> m h = (res, h') \<Longrightarrow> keeps n h h'"
  unfolding preserves_def by (drule spec[of _ h]) simp

text \<open>
  An example heap: a new \<^verbatim>\<open>VirtualBoard\<close> with the white king, the black king and an
  unmoved white pawn placed on it. \<^verbatim>\<open>makeMove\<close> changes what \<^verbatim>\<open>getBoard\<close> and
  \<^verbatim>\<open>getTurn\<close> return there.
\<close>

lemmas heap_ops = bindH_def returnH_def liftE_def alloc_def writeObj_def readOuter_def
  readColumn_def readBoardRef_def readTurn_def updateColumn_def hGet2_def hSet2_def
  pyGet_def pySet_def pyIndex_def

lemmas move_ops = deepcopy_def moveStmtsH_def hBump_def hReset_def hSpecial_def hAddFour_def
  hCastleRook_def hPromote_def hReverseRows_def hReverse_def promoteColumn_def resetCell_def
  msrc_def mdst_def mtag_def bindE_def

lemma example_store:
  "exampleHeap = \<lparr>store = [0 \<mapsto> Column [None, None, None, None, None, None, Some 0, None],
       1 \<mapsto> Column (replicate 8 None), 2 \<mapsto> Column (replicate 8 None),
       3 \<mapsto> Column (replicate 8 None),
       4 \<mapsto> Column [Some 51, None, None, None, None, None, None, Some 50],
       5 \<mapsto> Column (replicate 8 None), 6 \<mapsto> Column (replicate 8 None),
       7 \<mapsto> Column (replicate 8 None), 8 \<mapsto> Outer [0, 1, 2, 3, 4, 5, 6, 7],
       9 \<mapsto> VBoardObj 8 False], fresh = 10\<rparr>"
  by (simp add: exampleHeap_def emptyHeap_def newVirtualBoard_def placePieceH_def heap_ops
      eval_nat_numeral fun_upd_twist)

lemma example_ok: "vbOk exampleHeap 9"
  by (simp add: example_store vbOk_def isColumn_def)

lemma example_board:
  "observeBoard exampleHeap 9 =
     Inr [[None, None, None, None, None, None, Some 0, None], replicate 8 None, replicate 8 None,
          replicate 8 None, [Some 51, None, None, None, None, None, None, Some 50],
          replicate 8 None, replicate 8 None, replicate 8 None]"
  by (simp add: example_store observeBoard_def getBoardH_def boardValue_def deepcopy_def heap_ops)

lemma makeMove_changes_stored_board:
  "observeBoard (snd (makeMoveH 9 ((0, 6), (0, 4), Some ''d'') 4 exampleHeap)) 9 =
     Inr [replicate 8 None, replicate 8 None, replicate 8 None,
          [Some 50, None, None, None, None, None, None, Some 51], replicate 8 None,
          replicate 8 None, replicate 8 None, [None, None, None, Some 6, None, None, None, None]] \<and>
   observeTurn (snd (makeMoveH 9 ((0, 6), (0, 4), Some ''d'') 4 exampleHeap)) 9 = Inr True"
  by (simp add: example_store makeMoveH_def observeBoard_def observeTurn_def getBoardH_def
      getTurnH_def boardValue_def move_ops heap_ops)

text \<open>
  C10. \<^verbatim>\<open>v.fakeMove(m)\<close> computes the board after the move on a deep copy and returns
  it; the stored board and the turn flag of \<open>v\<close> are unchanged. On a heap \<open>h\<close> with a
  well-formed \<^verbatim>\<open>VirtualBoard\<close> at \<open>self\<close>, \<^verbatim>\<open>getBoard\<close> and \<^verbatim>\<open>getTurn\<close> return some
  \<open>b\<close> and \<open>t\<close>, and after \<open>fakeMoveH self m promote\<close> they return the same \<open>b\<close> and
  \<open>t\<close>, whether the call returned or raised. No object that existed before the call
  is changed. When the call returns, the result is a new object, and the board it holds
  is the one \<open>fakeMove\<close> computes from \<open>b\<close>; when it raises, \<open>fakeMove\<close> gives the same
  exception.
\<close>

theorem fakeMove_works_on_deep_copy:
  assumes "vbOk h self"
  shows "\<exists>b t. observeBoard h self = Inr b \<and> observeTurn h self = Inr t \<and>
           (case fakeMoveH self m promote h of
              (res, h') \<Rightarrow>
                observeBoard h' self = Inr b \<and> observeTurn h' self = Inr t \<and>
                keeps (fresh h) h h' \<and>
                (case res of
                   Inl e \<Rightarrow> fakeMove \<lparr>vbBoard = b, vbTurn = t\<rparr> m promote = Inl e
                 | Inr r \<Rightarrow>
                     fresh h \<le> r \<and>
                     fakeMove \<lparr>vbBoard = b, vbTurn = t\<rparr> m promote = Inr (boardValue h' r)))"
proof -
  from vbOk_parts[OF assms] obtain stored t cs where p:
    "store h self = Some (VBoardObj stored t)" "self < fresh h" "stored < fresh h"
    "store h stored = Some (Outer cs)" "distinct cs" "list_all (isColumn h) cs"
    by (elim exE conjE)
  define b where "b = boardValue h stored"
  from observe_stored[OF assms] p(1) have ob: "observeBoard h self = Inr b"
    and ot: "observeTurn h self = Inr t" by (auto simp: b_def)
  have below: "\<forall>c\<in>set cs. c < fresh h" using p(6) by (simp add: list_all_iff isColumn_def)
  have bv: "b = map (\<lambda>c. case store h c of Some (Column col) \<Rightarrow> col | _ \<Rightarrow> []) cs"
    using p(4) by (simp add: b_def boardValue_def)
  from deepcopy_rep[OF p(4,5) below columns_value[OF p(6)]] obtain board h1 where
    dc: "deepcopy stored h = (Inr board, h1)" and ge: "fresh h \<le> board"
    and rp: "rep (fresh h) board h1 b" and k1: "keeps (fresh h) h h1"
    unfolding bv by (elim exE conjE)
  obtain res h' where run: "moveStmtsH board m promote h1 = (res, h')"
    by (cases "moveStmtsH board m promote h1")
  have k2: "keeps (fresh h) h1 h'"
    using preservesD[OF preserves_moveStmtsH rep_rooted[OF rp] run] .
  have k: "keeps (fresh h) h h'" using keeps_trans[OF k1 k2] .
  have ok': "vbOk h' self"
    using vbOk_kept[OF assms k] k by (simp add: keeps_def)
  have same: "store h' self = store h self" "store h' stored = store h stored"
    using k p(2,3) by (simp_all add: keeps_def)
  have cols: "map (store h') cs = map (store h) cs"
    using k below by (intro map_cong[OF refl]) (simp add: keeps_def)
  have "boardValue h' stored = b"
    using rep_boardValue[of h' stored cs b] same(2) p(4) cols columns_value[OF p(6)] bv by simp
  with observe_stored[OF ok'] same(1) p(1)
  have ob': "observeBoard h' self = Inr b" and ot': "observeTurn h' self = Inr t" by auto
  have fm: "fakeMoveH self m promote h = (map_sum id (\<lambda>_. board) res, h')"
    using p(1) dc run
    by (cases res) (simp_all add: fakeMoveH_def bindH_def readBoardRef_def returnH_def)
  have pure: "case res of
                Inl e \<Rightarrow> moveStmts b m promote = Inl e
              | Inr u \<Rightarrow> moveStmts b m promote = Inr (boardValue h' board)"
  proof (cases res)
    case (Inl e)
    then show ?thesis using simD_Inl[OF sim_moveStmtsH rp] run by simp
  next
    case (Inr u)
    from simD_Inr[OF sim_moveStmtsH rp] run Inr obtain b' where
      b': "moveStmts b m promote = Inr b'" "rep (fresh h) board h' b'" by blast
    from b'(2) obtain cs' where "store h' board = Some (Outer cs')"
      "map (store h') cs' = map (\<lambda>col. Some (Column col)) b'"
      unfolding rep_def by (elim exE conjE)
    then have "boardValue h' board = b'" by (rule rep_boardValue)
    then show ?thesis using Inr b'(1) by simp
  qed
  show ?thesis
    using ob ot ob' ot' k ge pure unfolding fm
    by (cases res) (simp_all add: fakeMove_def)
qed


theorem fakeMove_works_on_deep_copy_witness:
  "vbOk exampleHeap 9 \<and>
   fst (fakeMoveH 9 ((0, 6), (0, 4), Some ''d'') 4 exampleHeap) = Inr 18 \<and>
   observeBoard (snd (fakeMoveH 9 ((0, 6), (0, 4), Some ''d'') 4 exampleHeap)) 9 =
     observeBoard exampleHeap 9 \<and>
   observeTurn (snd (fakeMoveH 9 ((0, 6), (0, 4), Some ''d'') 4 exampleHeap)) 9 = Inr False"
proof -
  obtain res h' where run: "fakeMoveH 9 ((0, 6), (0, 4), Some ''d'') 4 exampleHeap = (res, h')"
    by (cases "fakeMoveH 9 ((0, 6), (0, 4), Some ''d'') 4 exampleHeap")
  have r: "fst (fakeMoveH 9 ((0, 6), (0, 4), Some ''d'') 4 exampleHeap) = Inr 18"
    by (simp add: example_store fakeMoveH_def move_ops heap_ops)
  have t: "observeTurn exampleHeap 9 = Inr False"
    by (simp add: example_store observeTurn_def getTurnH_def readTurn_def)
  from fakeMove_works_on_deep_copy[OF example_ok, of "((0, 6), (0, 4), Some ''d'')" 4]
  obtain b t' where "observeBoard exampleHeap 9 = Inr b" "observeTurn exampleHeap 9 = Inr t'"
    "observeBoard h' 9 = Inr b \<and> observeTurn h' 9 = Inr t'"
    unfolding run by auto
  then show ?thesis using example_ok r t run by simp
qed

subsection \<open>The move forced by the time limit\<close>

text \<open>
  The first call of a search sets \<^verbatim>\<open>__bestMove\<close> to the first legal move before any
  move is tried.
\<close>

lemma startThinking_first_legal_move:
  assumes "getAllLegalMoves vb None None = Inr (m # ms)"
  shows "startThinking clock s vb =
           (Inr (), s\<lparr>thinkingTime := clock (ticks s), moveComplete := False, moveMade := False,
                       bestMove := Some m, ticks := Suc (ticks s)\<rparr>)"
  using assms by (simp add: startThinking_def perf_counter_def)

text \<open>
  When the time is over at the first check of the outermost call, where the board is the
  one the best move was taken from, the first legal move is played.
\<close>

lemma forced_at_root_plays_first_legal_move:
  assumes "getAllLegalMoves vb None None = Inr (m # ms)"
    and "get2 (vbBoard vb) (fst (msrc m)) (snd (msrc m)) = Inr (Some p)"
    and "maxDepth s = Suc d"
    and "clock (Suc (ticks s)) - clock (ticks s) \<ge> 1000 * ROE s"
  shows "\<exists>s'. takeTurn clock (maxDepth s) s vb alpha beta = (Inr (Some (- 10000)), s') \<and>
           clicks s' = clicks s @ [(msrc m, mdst m, p < 10 \<and> snd (mdst m) = 0)] \<and> moveMade s'"
  using assms
  by (simp add: takeTurn.simps enter_def startThinking_first_legal_move timeCheck_def
      perf_counter_def forceMove_def promoteFlag_def makeAMove_def stopThinking_def)

text \<open>
  Below the outermost call the same test reads the board of the position that is being
  searched. When the square of the best move's start is empty there, the call raises
  before the mouse is touched: no move has been made, and none will be.
\<close>

lemma forced_move_raises_on_empty_square:
  assumes "depth \<noteq> maxDepth s"
    and "bestMove s = Some m"
    and "get2 (vbBoard vb) (fst (msrc m)) (snd (msrc m)) = Inr None"
    and "clock (ticks s) - thinkingTime s \<ge> 1000 * ROE s"
  shows "takeTurn clock depth s vb alpha beta = (Inl TypeError, s\<lparr>ticks := Suc (ticks s)\<rparr>)"
  using assms
  by (cases depth)
     (simp_all add: takeTurn.simps enter_def timeCheck_def perf_counter_def forceMove_def
      promoteFlag_def)

text \<open>
  C9. A search started on a position with 24 legal moves, with a clock that runs out
  when the first position below the root is entered: \<^verbatim>\<open>__bestMove\<close> is the first legal
  move, the rook from (0, 7) to (1, 7), but the search ends with a \<^verbatim>\<open>TypeError\<close>, the
  move not made and the mouse not touched.
\<close>

theorem forced_move_below_root_makes_no_move:
  "map_sum id length (getAllLegalMoves castleExample None None) = Inr 24 \<and>
   takeTurnRoot lateClock NegaMax castleExample =
     (Inl TypeError,
      \<lparr>thinkingTime = 0, moveComplete = False, moveMade = False,
       bestMove = Some ((0, 7), (1, 7), None), ROE = 10, maxDepth = 2, ticks = 3, clicks = []\<rparr>)"
  by code_simp

end
